theory Spec2Isabelle
  imports Main
begin

section \<open>Data model\<close>

text \<open>
  The handlers of \<^verbatim>\<open>src/scheduler/handlers.js\<close> react to messages of the
  execution queue. They read and write two entity families (tasks and
  task-graphs), call the execution queue and call the publisher. Entities are
  records holding the properties the handlers touch; a table of a family is the
  list of its rows.
\<close>

record resolution =
  completed :: bool
  success :: bool
  resultUrl :: "string option"
  logsUrl :: "string option"

text \<open>Both entity families carry the id of the task-graph they belong to.\<close>

record entity =
  taskGraphId :: string

record task = entity +
  taskId :: string
  rerunsLeft :: int
  dependents :: "string list"
  "requires" :: "string list"
  resolution :: "resolution option"

record taskGraph = entity +
  state :: string
  requiresLeft :: "string list"
  routing :: string

text \<open>
  A message of the listener: its exchange and the parts of the payload that
  the handlers read (\<^verbatim>\<open>payload.status.routing\<close>, \<^verbatim>\<open>payload.status.taskId\<close>,
  \<^verbatim>\<open>payload.success\<close>, \<^verbatim>\<open>payload.resultUrl\<close>, \<^verbatim>\<open>payload.logsUrl\<close>). An absent
  URL is \<open>None\<close>.
\<close>

record message =
  exchange :: string
  payload_status_routing :: string
  payload_status_taskId :: string
  payload_success :: bool
  payload_resultUrl :: "string option"
  payload_logsUrl :: "string option"

record graph_status =
  status_taskGraphId :: string
  status_state :: string

text \<open>
  Calls made to the publisher: \<^verbatim>\<open>taskGraphFinished({status}, routing)\<close> and
  \<^verbatim>\<open>taskGraphBlocked({status, taskId}, routing)\<close>; calls made to the
  execution queue.
\<close>

datatype event =
  TaskGraphFinished graph_status string
| TaskGraphBlocked graph_status string string

datatype queue_call = RerunTask string | ScheduleTask string

datatype error =
  EntityNotFound
| RerunFailed
| ScheduleFailed
| PublishFailed
| AssertionFailed
| UnexpectedExchange string

text \<open>
  The world outside the handler: the two entity tables and the logs of the
  calls received by the execution queue and by the publisher (a call is logged
  whether or not the remote side then reports a failure).
\<close>

record world =
  Task :: "task list"
  TaskGraph :: "taskGraph list"
  queue_calls :: "queue_call list"
  publisher_calls :: "event list"

text \<open>
  What the surroundings decide during one handler invocation: the versions of
  the task and of the task-graph written by concurrent handlers between the
  load and the commit of a \<^verbatim>\<open>modify\<close> (each one makes the write fail
  once and the mutator run again), and whether the remote calls fail.
\<close>

record ext =
  task_conflicts :: "task list"
  graph_conflicts :: "taskGraph list"
  rerunTask_fails :: bool
  scheduleTask_fails :: bool
  publish_fails :: bool

text \<open>
  How a handler invocation looks from the listener: how the promise handed
  back settles, the world at that moment, and the promise chain that
  \<^verbatim>\<open>blockTaskGraph\<close> has started without handing it back (the task-graph id
  and blocking task id it was called with). A started chain runs after the
  handler's own promise has settled: its first step waits for the entity
  store, and the handler's promise needs no further input.
\<close>

record outcome =
  settled :: "error + unit"
  at_settle :: world
  detached :: "(string option \<times> string) option"

section \<open>Strings and arrays of the source\<close>

text \<open>\<^verbatim>\<open>String.prototype.split\<close> with a one-character separator.\<close>

fun split_str :: "char \<Rightarrow> string \<Rightarrow> string list" where
  "split_str c [] = [[]]"
| "split_str c (x # xs) =
     (if x = c then [] # split_str c xs
      else (case split_str c xs of
              [] \<Rightarrow> [[x]]
            | p # ps \<Rightarrow> (x # p) # ps))"

text \<open>Array indexing: \<^verbatim>\<open>undefined\<close> out of range.\<close>

fun index_opt :: "'a list \<Rightarrow> nat \<Rightarrow> 'a option" where
  "index_opt [] n = None"
| "index_opt (x # xs) 0 = Some x"
| "index_opt (x # xs) (Suc n) = index_opt xs n"

text \<open>\<^verbatim>\<open>message.payload.status.routing.split('.')[1]\<close>\<close>

definition routing_taskGraphId :: "message \<Rightarrow> string option" where
  "routing_taskGraphId message =
     index_opt (split_str CHR ''.'' (payload_status_routing message)) (Suc 0)"

section \<open>Entity store\<close>

text \<open>
  Modelled from the spec: the entity store adapter (\<^verbatim>\<open>Task.load\<close>,
  \<^verbatim>\<open>TaskGraph.load\<close>, \<^verbatim>\<open>entity.modify\<close>) is the external
  \<^verbatim>\<open>taskcluster-base\<close> entity class. \<open>load(key)\<close> gives the entity or
  fails; \<open>modify(mutator)\<close> runs the mutator on the entity and writes the
  result, and on a conflict reloads the entity and runs the mutator again from
  scratch until the write succeeds. An undefined key finds nothing.
\<close>

definition Task_load :: "string option \<Rightarrow> string \<Rightarrow> world \<Rightarrow> error + task" where
  "Task_load g t w =
     (case g of
        None \<Rightarrow> Inl EntityNotFound
      | Some g' \<Rightarrow>
          (case find (\<lambda>r. taskGraphId r = g' \<and> taskId r = t) (Task w) of
             None \<Rightarrow> Inl EntityNotFound
           | Some e \<Rightarrow> Inr e))"

definition TaskGraph_load :: "string option \<Rightarrow> world \<Rightarrow> error + taskGraph" where
  "TaskGraph_load g w =
     (case g of
        None \<Rightarrow> Inl EntityNotFound
      | Some g' \<Rightarrow>
          (case find (\<lambda>r. taskGraphId r = g') (TaskGraph w) of
             None \<Rightarrow> Inl EntityNotFound
           | Some e \<Rightarrow> Inr e))"

text \<open>
  The mutator is a closure: besides the entity it reads and writes the
  variables \<open>'v\<close> it has captured. \<open>modify mutator v e cs\<close> runs it on the
  loaded entity \<open>e\<close>; each version in \<open>cs\<close> is a conflict, after which the
  mutator runs on that version, with the captured variables as the previous
  run left them. The last run is the one committed.
\<close>

fun modify :: "('v \<Rightarrow> 'e \<Rightarrow> 'v \<times> 'e) \<Rightarrow> 'v \<Rightarrow> 'e \<Rightarrow> 'e list \<Rightarrow> 'v \<times> 'e" where
  "modify mutator v e [] = mutator v e"
| "modify mutator v e (c # cs) = modify mutator (fst (mutator v e)) c cs"

text \<open>
  A conflicting version is reloaded under the key of the entity. A commit
  writes the entity over every row that has its key.
\<close>

definition reload_task :: "task \<Rightarrow> task \<Rightarrow> task" where
  "reload_task e c = c\<lparr>taskGraphId := taskGraphId e, taskId := taskId e\<rparr>"

definition reload_graph :: "taskGraph \<Rightarrow> taskGraph \<Rightarrow> taskGraph" where
  "reload_graph e c = c\<lparr>taskGraphId := taskGraphId e\<rparr>"

definition Task_commit :: "task \<Rightarrow> world \<Rightarrow> world" where
  "Task_commit e w =
     w\<lparr>Task := map (\<lambda>r. if taskGraphId r = taskGraphId e \<and> taskId r = taskId e
                          then e else r) (Task w)\<rparr>"

definition TaskGraph_commit :: "taskGraph \<Rightarrow> world \<Rightarrow> world" where
  "TaskGraph_commit e w =
     w\<lparr>TaskGraph := map (\<lambda>r. if taskGraphId r = taskGraphId e then e else r)
                         (TaskGraph w)\<rparr>"

definition Task_modify ::
  "ext \<Rightarrow> ('v \<Rightarrow> task \<Rightarrow> 'v \<times> task) \<Rightarrow> 'v \<Rightarrow> task \<Rightarrow> world \<Rightarrow> ('v \<times> task) \<times> world" where
  "Task_modify x mutator v e w =
     (let r = modify mutator v e (map (reload_task e) (task_conflicts x))
      in (r, Task_commit (snd r) w))"

definition TaskGraph_modify ::
  "ext \<Rightarrow> ('v \<Rightarrow> taskGraph \<Rightarrow> 'v \<times> taskGraph) \<Rightarrow> 'v \<Rightarrow> taskGraph \<Rightarrow> world
     \<Rightarrow> ('v \<times> taskGraph) \<times> world" where
  "TaskGraph_modify x mutator v e w =
     (let r = modify mutator v e (map (reload_graph e) (graph_conflicts x))
      in (r, TaskGraph_commit (snd r) w))"

text \<open>
  Modelled from the spec: \<^verbatim>\<open>TaskGraph.prototype.status\<close> is defined in
  \<^verbatim>\<open>data.js\<close>, which is not among the sources. The status snapshot holds the
  id of the task-graph and its current state.
\<close>

definition status :: "taskGraph \<Rightarrow> graph_status" where
  "status g = \<lparr>status_taskGraphId = taskGraphId g, status_state = state g\<rparr>"

section \<open>Remote calls\<close>

definition publish :: "ext \<Rightarrow> event \<Rightarrow> world \<Rightarrow> (error + unit) \<times> world" where
  "publish x ev w =
     (if publish_fails x then Inl PublishFailed else Inr (),
      w\<lparr>publisher_calls := publisher_calls w @ [ev]\<rparr>)"

definition rerunTask :: "ext \<Rightarrow> string \<Rightarrow> world \<Rightarrow> (error + unit) \<times> world" where
  "rerunTask x t w =
     (if rerunTask_fails x then Inl RerunFailed else Inr (),
      w\<lparr>queue_calls := queue_calls w @ [RerunTask t]\<rparr>)"

definition scheduleTask :: "ext \<Rightarrow> string \<Rightarrow> world \<Rightarrow> (error + unit) \<times> world" where
  "scheduleTask x t w =
     (if scheduleTask_fails x then Inl ScheduleFailed else Inr (),
      w\<lparr>queue_calls := queue_calls w @ [ScheduleTask t]\<rparr>)"

section \<open>Dependent scheduling\<close>

text \<open>
  Modelled from the spec: \<^verbatim>\<open>helpers.scheduleDependentTasks(task, queue, Task)\<close>
  is defined in \<^verbatim>\<open>helpers.js\<close>, which is not among the sources. For each
  dependent of the task, in the same task-graph, it loads the dependent, and
  when every task the dependent requires has a resolution with
  \<open>success = true\<close> it submits the dependent to the execution queue.
\<close>

definition has_succeeded :: "world \<Rightarrow> string \<Rightarrow> string \<Rightarrow> bool" where
  "has_succeeded w g t =
     (case Task_load (Some g) t w of
        Inl _ \<Rightarrow> False
      | Inr e \<Rightarrow> (case resolution e of None \<Rightarrow> False | Some r \<Rightarrow> success r))"

fun schedule_each :: "ext \<Rightarrow> string \<Rightarrow> string list \<Rightarrow> world \<Rightarrow> (error + unit) \<times> world" where
  "schedule_each x g [] w = (Inr (), w)"
| "schedule_each x g (d # ds) w =
     (case Task_load (Some g) d w of
        Inl e \<Rightarrow> (Inl e, w)
      | Inr dep \<Rightarrow>
          if list_all (has_succeeded w g) (requires dep) then
            (case scheduleTask x d w of
               (Inl e, w') \<Rightarrow> (Inl e, w')
             | (Inr _, w') \<Rightarrow> schedule_each x g ds w')
          else schedule_each x g ds w)"

definition scheduleDependentTasks :: "ext \<Rightarrow> task \<Rightarrow> world \<Rightarrow> (error + unit) \<times> world" where
  "scheduleDependentTasks x task w = schedule_each x (taskGraphId task) (dependents task) w"

section \<open>Handlers\<close>

text \<open>A promise chain that the caller hands back: nothing is left running.\<close>

definition awaited :: "(error + unit) \<times> world \<Rightarrow> outcome" where
  "awaited p = \<lparr>settled = fst p, at_settle = snd p, detached = None\<rparr>"

subsection \<open>checkTaskGraphFinished\<close>

text \<open>
  The mutator of lines 102--125, with the captured \<^verbatim>\<open>taskGraphFinishedNow\<close>
  (declared without a value on line 101, which counts as false on line 132).
  \<^verbatim>\<open>_.contains\<close> is membership and \<^verbatim>\<open>_.without\<close> removes every
  occurrence.
\<close>

definition finish_mutator :: "string \<Rightarrow> bool \<Rightarrow> taskGraph \<Rightarrow> bool \<times> taskGraph" where
  "finish_mutator successfulTaskId taskGraphFinishedNow this =
     (let taskGraphFinishedNow = False in
      if successfulTaskId \<notin> set (requiresLeft this) then (taskGraphFinishedNow, this)
      else
        let this = this\<lparr>requiresLeft := removeAll successfulTaskId (requiresLeft this)\<rparr>;
            taskGraphFinishedNow = (length (requiresLeft this) = 0)
        in if taskGraphFinishedNow then (taskGraphFinishedNow, this\<lparr>state := ''finished''\<rparr>)
           else (taskGraphFinishedNow, this))"

definition checkTaskGraphFinished ::
  "ext \<Rightarrow> string option \<Rightarrow> string \<Rightarrow> world \<Rightarrow> (error + unit) \<times> world" where
  "checkTaskGraphFinished x taskGraphId' successfulTaskId w =
     (case TaskGraph_load taskGraphId' w of
        Inl e \<Rightarrow> (Inl e, w)
      | Inr loaded \<Rightarrow>
          (case TaskGraph_modify x (finish_mutator successfulTaskId) False loaded w of
             ((taskGraphFinishedNow, taskGraph), w') \<Rightarrow>
               if taskGraphFinishedNow then
                 (if state taskGraph = ''finished''
                  then publish x (TaskGraphFinished (status taskGraph) (routing taskGraph)) w'
                  else (Inl AssertionFailed, w'))
               else (Inr (), w')))"

subsection \<open>blockTaskGraph\<close>

text \<open>The mutator of lines 153--158, with the captured \<^verbatim>\<open>wasRunning\<close>.\<close>

definition block_mutator :: "bool \<Rightarrow> taskGraph \<Rightarrow> bool \<times> taskGraph" where
  "block_mutator wasRunning this =
     (let wasRunning = (state this = ''running'') in
      if wasRunning then (wasRunning, this\<lparr>state := ''blocked''\<rparr>)
      else (wasRunning, this))"

text \<open>The promise chain built on lines 150--169.\<close>

definition blockTaskGraph_chain ::
  "ext \<Rightarrow> string option \<Rightarrow> string \<Rightarrow> world \<Rightarrow> (error + unit) \<times> world" where
  "blockTaskGraph_chain x taskGraphId' blockingTaskId w =
     (case TaskGraph_load taskGraphId' w of
        Inl e \<Rightarrow> (Inl e, w)
      | Inr loaded \<Rightarrow>
          (case TaskGraph_modify x block_mutator False loaded w of
             ((wasRunning, taskGraph), w') \<Rightarrow>
               if wasRunning then
                 (if state taskGraph = ''blocked''
                  then publish x (TaskGraphBlocked (status taskGraph) blockingTaskId
                                    (routing taskGraph)) w'
                  else (Inl AssertionFailed, w'))
               else (Inr (), w')))"

text \<open>
  \<^verbatim>\<open>blockTaskGraph\<close> itself: line 150 starts the chain and the function ends
  without a \<^verbatim>\<open>return\<close>, so the caller gets \<^verbatim>\<open>undefined\<close> at once.
\<close>

definition blockTaskGraph :: "string option \<Rightarrow> string \<Rightarrow> world \<Rightarrow> outcome" where
  "blockTaskGraph taskGraphId' blockingTaskId w =
     \<lparr>settled = Inr (), at_settle = w, detached = Some (taskGraphId', blockingTaskId)\<rparr>"

text \<open>Letting the started chain run to its end, with nothing else in between.\<close>

definition run_detached :: "ext \<Rightarrow> outcome \<Rightarrow> (error + unit) \<times> world" where
  "run_detached x r =
     (case detached r of
        None \<Rightarrow> (Inr (), at_settle r)
      | Some (g, t) \<Rightarrow> blockTaskGraph_chain x g t (at_settle r))"

definition final_world :: "ext \<Rightarrow> outcome \<Rightarrow> world" where
  "final_world x r = snd (run_detached x r)"

subsection \<open>rerunTaskOrBlock\<close>

text \<open>The mutator of lines 181--193, with the captured \<^verbatim>\<open>has_rerun_available\<close>.\<close>

definition rerun_mutator :: "message \<Rightarrow> bool \<Rightarrow> task \<Rightarrow> bool \<times> task" where
  "rerun_mutator message has_rerun_available this =
     (let has_rerun_available = (rerunsLeft this > 0) in
      if has_rerun_available then (has_rerun_available, this\<lparr>rerunsLeft := rerunsLeft this - 1\<rparr>)
      else (has_rerun_available,
            this\<lparr>resolution := Some \<lparr>completed = True, success = False,
                                      resultUrl = payload_resultUrl message,
                                      logsUrl = payload_logsUrl message\<rparr>\<rparr>))"

definition rerunTaskOrBlock :: "ext \<Rightarrow> task \<Rightarrow> message \<Rightarrow> world \<Rightarrow> outcome" where
  "rerunTaskOrBlock x loaded message w =
     (case Task_modify x (rerun_mutator message) True loaded w of
        ((has_rerun_available, task), w') \<Rightarrow>
          if has_rerun_available then awaited (rerunTask x (taskId task) w')
          else blockTaskGraph (Some (taskGraphId task)) (taskId task) w')"

subsection \<open>failed\<close>

definition failed_mutator :: "unit \<Rightarrow> task \<Rightarrow> unit \<times> task" where
  "failed_mutator u this =
     (u, this\<lparr>resolution := Some \<lparr>completed = False, success = False,
                                   resultUrl = None, logsUrl = None\<rparr>\<rparr>)"

definition Handlers_failed :: "ext \<Rightarrow> message \<Rightarrow> world \<Rightarrow> outcome" where
  "Handlers_failed x message w =
     (let taskGraphId' = routing_taskGraphId message;
          blockingTaskId = payload_status_taskId message
      in case Task_load taskGraphId' blockingTaskId w of
           Inl e \<Rightarrow> awaited (Inl e, w)
         | Inr task \<Rightarrow>
             (case Task_modify x failed_mutator () task w of
                (_, w') \<Rightarrow> blockTaskGraph taskGraphId' blockingTaskId w'))"

subsection \<open>completed\<close>

definition success_mutator :: "message \<Rightarrow> unit \<Rightarrow> task \<Rightarrow> unit \<times> task" where
  "success_mutator message u this =
     (u, this\<lparr>resolution := Some \<lparr>completed = True, success = True,
                                   resultUrl = payload_resultUrl message,
                                   logsUrl = payload_logsUrl message\<rparr>\<rparr>)"

definition Handlers_completed :: "ext \<Rightarrow> message \<Rightarrow> world \<Rightarrow> outcome" where
  "Handlers_completed x message w =
     (let taskGraphId' = routing_taskGraphId message;
          completedTaskId = payload_status_taskId message
      in case Task_load taskGraphId' completedTaskId w of
           Inl e \<Rightarrow> awaited (Inl e, w)
         | Inr loaded \<Rightarrow>
             if payload_success message then
               (case Task_modify x (success_mutator message) () loaded w of
                  ((_, task), w') \<Rightarrow>
                    if length (dependents task) \<noteq> 0
                    then awaited (scheduleDependentTasks x task w')
                    else awaited (checkTaskGraphFinished x taskGraphId' (taskId task) w'))
             else rerunTaskOrBlock x loaded message w)"

subsection \<open>The listener's message callback\<close>

text \<open>
  Lines 71--82. The exchanges of the two bindings come from the queue-events
  client and are parameters here.
\<close>

definition on_message :: "string \<Rightarrow> string \<Rightarrow> ext \<Rightarrow> message \<Rightarrow> world \<Rightarrow> outcome" where
  "on_message completedExchange failedExchange x message w =
     (if exchange message = completedExchange then Handlers_completed x message w
      else if exchange message = failedExchange then Handlers_failed x message w
      else awaited (Inl (UnexpectedExchange (exchange message)), w))"


section \<open>Runs of several messages\<close>

text \<open>
  Handling a list of messages one after the other, each with what the
  surroundings decide for it; a started block chain runs to its end before
  the next message is taken.
\<close>

fun handle_all :: "string \<Rightarrow> string \<Rightarrow> (ext \<times> message) list \<Rightarrow> world \<Rightarrow> world" where
  "handle_all ce fe [] w = w"
| "handle_all ce fe (xm # rest) w =
     handle_all ce fe rest (final_world (fst xm) (on_message ce fe (fst xm) (snd xm) w))"

text \<open>
  The version of an entity that the committed run of a mutator has read: the
  loaded one, or the last conflicting version.
\<close>

definition seen_task :: "ext \<Rightarrow> task \<Rightarrow> task" where
  "seen_task x e = last (e # map (reload_task e) (task_conflicts x))"

definition seen_graph :: "ext \<Rightarrow> taskGraph \<Rightarrow> taskGraph" where
  "seen_graph x e = last (e # map (reload_graph e) (graph_conflicts x))"

fun is_blocked_event :: "event \<Rightarrow> bool" where
  "is_blocked_event (TaskGraphBlocked s t r) = True"
| "is_blocked_event (TaskGraphFinished s r) = False"

section \<open>A small task-graph\<close>

text \<open>
  Task-graph \<open>G\<close> with the single task \<open>T\<close>, a leaf, which the task-graph
  still requires.
\<close>

definition ex_task :: task where
  "ex_task = \<lparr>taskGraphId = ''G'', taskId = ''T'', rerunsLeft = 0, dependents = [],
              requires = [], resolution = None\<rparr>"

definition ex_graph :: taskGraph where
  "ex_graph = \<lparr>taskGraphId = ''G'', state = ''running'', requiresLeft = [''T''],
               routing = ''route.G''\<rparr>"

definition ex_world :: world where
  "ex_world = \<lparr>Task = [ex_task], TaskGraph = [ex_graph], queue_calls = [],
               publisher_calls = []\<rparr>"

text \<open>No concurrent writer and no failing remote call.\<close>

definition quiet :: ext where
  "quiet = \<lparr>task_conflicts = [], graph_conflicts = [], rerunTask_fails = False,
            scheduleTask_fails = False, publish_fails = False\<rparr>"

definition ex_completed :: "bool \<Rightarrow> message" where
  "ex_completed ok =
     \<lparr>exchange = ''task-completed'', payload_status_routing = ''sched.G'',
      payload_status_taskId = ''T'', payload_success = ok,
      payload_resultUrl = Some ''result'', payload_logsUrl = Some ''logs''\<rparr>"

definition ex_failed :: message where
  "ex_failed =
     \<lparr>exchange = ''task-failed'', payload_status_routing = ''sched.G'',
      payload_status_taskId = ''T'', payload_success = False,
      payload_resultUrl = None, payload_logsUrl = None\<rparr>"

text \<open>
  Task-graph \<open>G\<close> with the chain \<open>A \<rightarrow> B\<close>: task \<open>B\<close> requires
  task \<open>A\<close> and is the only leaf.
\<close>

definition ex_chain_world :: world where
  "ex_chain_world =
     \<lparr>Task = [\<lparr>taskGraphId = ''G'', taskId = ''A'', rerunsLeft = 0, dependents = [''B''],
               requires = [], resolution = None\<rparr>,
              \<lparr>taskGraphId = ''G'', taskId = ''B'', rerunsLeft = 0, dependents = [],
               requires = [''A''], resolution = None\<rparr>],
      TaskGraph = [ex_graph\<lparr>requiresLeft := [''B'']\<rparr>],
      queue_calls = [], publisher_calls = []\<rparr>"

text \<open>
  Task \<open>T\<close> completes without success and has no rerun left; later a
  completed message with success arrives for it.
\<close>

definition ex_after_exhausted :: world where
  "ex_after_exhausted =
     handle_all ''task-completed'' ''task-failed'' [(quiet, ex_completed False)] ex_world"


text \<open>Task \<open>T\<close> fails; later a completed message with success arrives for it.\<close>

definition ex_after_failed :: world where
  "ex_after_failed =
     handle_all ''task-completed'' ''task-failed'' [(quiet, ex_failed)] ex_world"

definition ex_after_failed_then_success :: world where
  "ex_after_failed_then_success =
     handle_all ''task-completed'' ''task-failed'' [(quiet, ex_completed True)]
       ex_after_failed"

text \<open>
  Task \<open>T\<close> has one rerun left and the same completed message without
  success is handled twice.
\<close>

definition ex_rerun_world :: world where
  "ex_rerun_world = ex_world\<lparr>Task := [ex_task\<lparr>rerunsLeft := 1\<rparr>]\<rparr>"

definition ex_after_first :: world where
  "ex_after_first =
     final_world quiet (Handlers_completed quiet (ex_completed False) ex_rerun_world)"

definition ex_after_second :: world where
  "ex_after_second =
     final_world quiet (Handlers_completed quiet (ex_completed False) ex_after_first)"

text \<open>
  Task \<open>T\<close> has five reruns left and fails; later a completed message
  without success arrives for it.
\<close>

definition ex_five_world :: world where
  "ex_five_world = ex_world\<lparr>Task := [ex_task\<lparr>rerunsLeft := 5\<rparr>]\<rparr>"

definition ex_five_after_failed :: world where
  "ex_five_after_failed = final_world quiet (Handlers_failed quiet ex_failed ex_five_world)"

definition ex_five_after_unsuccessful :: world where
  "ex_five_after_unsuccessful =
     final_world quiet (Handlers_completed quiet (ex_completed False) ex_five_after_failed)"

section \<open>Mutators and the replay of \<open>modify\<close>\<close>

lemma finish_mutator_eq:
  "finish_mutator t v g =
     (if t \<notin> set (requiresLeft g) then (False, g)
      else if removeAll t (requiresLeft g) = []
      then (True, g\<lparr>requiresLeft := [], state := ''finished''\<rparr>)
      else (False, g\<lparr>requiresLeft := removeAll t (requiresLeft g)\<rparr>))"
  by (simp add: finish_mutator_def Let_def)

lemma block_mutator_eq:
  "block_mutator v g =
     (if state g = ''running'' then (True, g\<lparr>state := ''blocked''\<rparr>) else (False, g))"
  by (simp add: block_mutator_def Let_def)

lemma rerun_mutator_eq:
  "rerun_mutator m v t =
     (if rerunsLeft t > 0 then (True, t\<lparr>rerunsLeft := rerunsLeft t - 1\<rparr>)
      else (False, t\<lparr>resolution := Some \<lparr>completed = True, success = False,
                                             resultUrl = payload_resultUrl m,
                                             logsUrl = payload_logsUrl m\<rparr>\<rparr>))"
  by (simp add: rerun_mutator_def Let_def)

text \<open>
  Every mutator of the handlers assigns its captured variable before reading
  it, so a run does not depend on what an earlier run left there, and the
  result of \<open>modify\<close> is the result of the run on the last version.
\<close>

lemma modify_last:
  assumes "\<And>v v' e. mutator v e = mutator v' e"
  shows "modify mutator v e cs = mutator v (last (e # cs))"
proof (induction cs arbitrary: v e)
  case Nil
  show ?case by simp
next
  case (Cons c cs)
  have "modify mutator v e (c # cs) = modify mutator (fst (mutator v e)) c cs" by simp
  also have "\<dots> = mutator (fst (mutator v e)) (last (c # cs))" by (rule Cons.IH)
  also have "\<dots> = mutator v (last (c # cs))" by (rule assms)
  finally show ?case by simp
qed

lemma finish_mutator_var: "finish_mutator t v g = finish_mutator t v' g"
  by (simp only: finish_mutator_eq)

lemma block_mutator_var: "block_mutator v g = block_mutator v' g"
  by (simp only: block_mutator_eq)

lemma rerun_mutator_var: "rerun_mutator m v t = rerun_mutator m v' t"
  by (simp only: rerun_mutator_eq)

lemma TaskGraph_modify_finish:
  "TaskGraph_modify x (finish_mutator t) v e w =
     (finish_mutator t v (seen_graph x e),
      TaskGraph_commit (snd (finish_mutator t v (seen_graph x e))) w)"
  unfolding TaskGraph_modify_def seen_graph_def Let_def
  by (simp only: modify_last [of "finish_mutator t", OF finish_mutator_var])

lemma TaskGraph_modify_block:
  "TaskGraph_modify x block_mutator v e w =
     (block_mutator v (seen_graph x e),
      TaskGraph_commit (snd (block_mutator v (seen_graph x e))) w)"
  unfolding TaskGraph_modify_def seen_graph_def Let_def
  by (simp only: modify_last [of block_mutator, OF block_mutator_var])

lemma Task_modify_rerun:
  "Task_modify x (rerun_mutator m) v e w =
     (rerun_mutator m v (seen_task x e),
      Task_commit (snd (rerun_mutator m v (seen_task x e))) w)"
  unfolding Task_modify_def seen_task_def Let_def
  by (simp only: modify_last [of "rerun_mutator m", OF rerun_mutator_var])

lemma Task_modify_failed:
  "Task_modify x failed_mutator v e w =
     (failed_mutator v (seen_task x e),
      Task_commit (snd (failed_mutator v (seen_task x e))) w)"
  unfolding Task_modify_def seen_task_def Let_def
  by (simp add: modify_last [of failed_mutator] failed_mutator_def)

lemma Task_modify_success:
  "Task_modify x (success_mutator m) v e w =
     (success_mutator m v (seen_task x e),
      Task_commit (snd (success_mutator m v (seen_task x e))) w)"
  unfolding Task_modify_def seen_task_def Let_def
  by (simp add: modify_last [of "success_mutator m"] success_mutator_def)

lemma finish_flag_eq: "finish_mutator t v g = (True, g') \<Longrightarrow> state g' = ''finished''"
  by (auto simp: finish_mutator_eq split: if_splits)

lemma block_flag_eq: "block_mutator v g = (True, g') \<Longrightarrow> state g' = ''blocked''"
  by (auto simp: block_mutator_eq split: if_splits)

lemma TaskGraph_load_error: "TaskGraph_load g w = Inl e \<Longrightarrow> e = EntityNotFound"
  by (auto simp: TaskGraph_load_def split: option.splits)

lemma Task_load_error: "Task_load g t w = Inl e \<Longrightarrow> e = EntityNotFound"
  by (auto simp: Task_load_def split: option.splits)

section \<open>The assertions before the two publish calls\<close>

text \<open>
  Claim C10. Whenever the \<open>modify\<close> of \<open>checkTaskGraphFinished\<close> ends with
  the captured \<open>taskGraphFinishedNow\<close> true, the committed task-graph has
  state \<open>finished\<close>, and whenever the \<open>modify\<close> of \<open>blockTaskGraph\<close> ends
  with \<open>wasRunning\<close> true, it has state \<open>blocked\<close>: whatever the loaded
  version, the conflicting versions and the value the captured variable had
  before. So neither promise chain can end in a failed assertion.
\<close>

theorem publish_assertions_hold:
  "(modify (finish_mutator t) v g cs = (True, g') \<longrightarrow> state g' = ''finished'') \<and>
   (modify block_mutator v g cs = (True, g') \<longrightarrow> state g' = ''blocked'') \<and>
   fst (checkTaskGraphFinished x gid t w) \<noteq> Inl AssertionFailed \<and>
   fst (blockTaskGraph_chain x gid t w) \<noteq> Inl AssertionFailed"
proof (intro conjI impI)
  assume "modify (finish_mutator t) v g cs = (True, g')"
  then have "finish_mutator t v (last (g # cs)) = (True, g')"
    by (simp only: modify_last [of "finish_mutator t", OF finish_mutator_var])
  then show "state g' = ''finished''"
    by (rule finish_flag_eq)
next
  assume "modify block_mutator v g cs = (True, g')"
  then have "block_mutator v (last (g # cs)) = (True, g')"
    by (simp only: modify_last [of block_mutator, OF block_mutator_var])
  then show "state g' = ''blocked''"
    by (rule block_flag_eq)
next
  show "fst (checkTaskGraphFinished x gid t w) \<noteq> Inl AssertionFailed"
    by (auto simp: checkTaskGraphFinished_def TaskGraph_modify_finish publish_def
          split: sum.splits prod.splits dest: finish_flag_eq TaskGraph_load_error)
next
  show "fst (blockTaskGraph_chain x gid t w) \<noteq> Inl AssertionFailed"
    by (auto simp: blockTaskGraph_chain_def TaskGraph_modify_block publish_def
          split: sum.splits prod.splits dest: block_flag_eq TaskGraph_load_error)
qed

text \<open>
  The first run of the mutator sees two required tasks and sets the flag to
  false; a concurrent handler removes the other task, the write fails, and
  the second run finishes the task-graph.
\<close>

theorem publish_assertions_hold_witness:
  "modify (finish_mutator ''T'') False (ex_graph\<lparr>requiresLeft := [''T'', ''U'']\<rparr>) [ex_graph]
     = (True, ex_graph\<lparr>requiresLeft := [], state := ''finished''\<rparr>) \<and>
   state (ex_graph\<lparr>requiresLeft := [], state := ''finished''\<rparr>) = ''finished'' \<and>
   modify block_mutator False (ex_graph\<lparr>requiresLeft := [''T'', ''U'']\<rparr>) [ex_graph]
     = (True, ex_graph\<lparr>state := ''blocked''\<rparr>) \<and>
   state (ex_graph\<lparr>state := ''blocked''\<rparr>) = ''blocked''"
  using publish_assertions_hold
          [of "''T''" False "ex_graph\<lparr>requiresLeft := [''T'', ''U'']\<rparr>" "[ex_graph]"
              "ex_graph\<lparr>requiresLeft := [], state := ''finished''\<rparr>"]
        publish_assertions_hold
          [of "''T''" False "ex_graph\<lparr>requiresLeft := [''T'', ''U'']\<rparr>" "[ex_graph]"
              "ex_graph\<lparr>state := ''blocked''\<rparr>"]
  by (simp add: finish_mutator_eq block_mutator_eq ex_graph_def)

section \<open>The listener's message callback\<close>

text \<open>
  Claim C9. A message whose exchange is neither the exchange of the
  task-completed binding nor that of the task-failed binding makes the message
  callback raise an error naming the exchange, and nothing else happens; a
  message on the exchange of the task-completed binding goes to \<open>completed\<close>,
  one on the exchange of the task-failed binding to \<open>failed\<close>.
\<close>

theorem on_message_dispatch:
  assumes "completedExchange \<noteq> failedExchange"
  shows "(exchange m = completedExchange \<longrightarrow>
            on_message completedExchange failedExchange x m w = Handlers_completed x m w) \<and>
         (exchange m = failedExchange \<longrightarrow>
            on_message completedExchange failedExchange x m w = Handlers_failed x m w) \<and>
         (exchange m \<noteq> completedExchange \<and> exchange m \<noteq> failedExchange \<longrightarrow>
            on_message completedExchange failedExchange x m w =
              \<lparr>settled = Inl (UnexpectedExchange (exchange m)), at_settle = w,
               detached = None\<rparr>)"
  using assms by (auto simp: on_message_def awaited_def)

theorem on_message_dispatch_witness:
  "''task-completed'' \<noteq> ''task-failed'' \<and>
   on_message ''task-completed'' ''task-failed'' quiet (ex_failed\<lparr>exchange := ''task-running''\<rparr>)
       ex_world =
     \<lparr>settled = Inl (UnexpectedExchange ''task-running''), at_settle = ex_world,
      detached = None\<rparr> \<and>
   on_message ''task-completed'' ''task-failed'' quiet ex_failed ex_world =
     Handlers_failed quiet ex_failed ex_world \<and>
   on_message ''task-completed'' ''task-failed'' quiet (ex_completed True) ex_world =
     Handlers_completed quiet (ex_completed True) ex_world"
  using on_message_dispatch
          [of "''task-completed''" "''task-failed''" "ex_failed\<lparr>exchange := ''task-running''\<rparr>"
              quiet ex_world]
        on_message_dispatch
          [of "''task-completed''" "''task-failed''" ex_failed quiet ex_world]
        on_message_dispatch
          [of "''task-completed''" "''task-failed''" "ex_completed True" quiet ex_world]
  by (simp add: ex_failed_def ex_completed_def)

section \<open>The entity tables\<close>

lemma Task_commit_sel [simp]:
  "Task (Task_commit e w) =
     map (\<lambda>r. if taskGraphId r = taskGraphId e \<and> taskId r = taskId e then e else r) (Task w)"
  "TaskGraph (Task_commit e w) = TaskGraph w"
  "queue_calls (Task_commit e w) = queue_calls w"
  "publisher_calls (Task_commit e w) = publisher_calls w"
  by (simp_all add: Task_commit_def)

lemma TaskGraph_commit_sel [simp]:
  "TaskGraph (TaskGraph_commit e w) =
     map (\<lambda>r. if taskGraphId r = taskGraphId e then e else r) (TaskGraph w)"
  "Task (TaskGraph_commit e w) = Task w"
  "queue_calls (TaskGraph_commit e w) = queue_calls w"
  "publisher_calls (TaskGraph_commit e w) = publisher_calls w"
  by (simp_all add: TaskGraph_commit_def)

lemma Task_load_cong: "Task w = Task w' \<Longrightarrow> Task_load g t w = Task_load g t w'"
  by (cases g) (simp_all add: Task_load_def)

lemma TaskGraph_load_cong: "TaskGraph w = TaskGraph w' \<Longrightarrow> TaskGraph_load g w = TaskGraph_load g w'"
  by (cases g) (simp_all add: TaskGraph_load_def)

lemma find_replace_same:
  "P e \<Longrightarrow> find P (map (\<lambda>r. if P r then e else r) rows) = map_option (\<lambda>_. e) (find P rows)"
  by (induction rows) auto

lemma find_replace_other:
  "\<not> Q e \<Longrightarrow> (\<And>r. P r \<Longrightarrow> \<not> Q r) \<Longrightarrow> find Q (map (\<lambda>r. if P r then e else r) rows) = find Q rows"
  by (induction rows) auto

lemma map_replace_idem:
  "P e \<Longrightarrow> map (\<lambda>r. if P r then e else r) (map (\<lambda>r. if P r then e else r) rows)
          = map (\<lambda>r. if P r then e else r) rows"
  by (induction rows) auto

lemma Task_load_key:
  "Task_load g t w = Inr e \<Longrightarrow> g = Some (taskGraphId e) \<and> taskId e = t"
  by (auto simp: Task_load_def find_Some_iff split: option.splits)

lemma TaskGraph_load_key:
  "TaskGraph_load g w = Inr e \<Longrightarrow> g = Some (taskGraphId e)"
  by (auto simp: TaskGraph_load_def find_Some_iff split: option.splits)

lemma seen_task_key [simp]:
  "taskGraphId (seen_task x e) = taskGraphId e" "taskId (seen_task x e) = taskId e"
  by (cases "task_conflicts x" rule: rev_cases; simp add: seen_task_def reload_task_def)+

lemma seen_graph_key [simp]: "taskGraphId (seen_graph x e) = taskGraphId e"
  by (cases "graph_conflicts x" rule: rev_cases; simp add: seen_graph_def reload_graph_def)

lemma seen_quiet [simp]:
  "task_conflicts x = [] \<Longrightarrow> seen_task x e = e"
  "graph_conflicts x = [] \<Longrightarrow> seen_graph x g = g"
  by (simp_all add: seen_task_def seen_graph_def)

lemma Task_load_commit:
  assumes "Task_load g t w = Inr e" "taskGraphId e' = taskGraphId e" "taskId e' = taskId e"
  shows "Task_load g t (Task_commit e' w) = Inr e'"
proof -
  from assms(1) obtain g' where g: "g = Some g'" "taskGraphId e = g'" "taskId e = t"
    and f: "find (\<lambda>r. taskGraphId r = g' \<and> taskId r = t) (Task w) = Some e"
    by (auto simp: Task_load_def find_Some_iff split: option.splits)
  have "find (\<lambda>r. taskGraphId r = g' \<and> taskId r = t)
          (map (\<lambda>r. if taskGraphId r = g' \<and> taskId r = t then e' else r) (Task w)) = Some e'"
    using find_replace_same [of "\<lambda>r. taskGraphId r = g' \<and> taskId r = t" e' "Task w"] f g assms(2,3)
    by simp
  then show ?thesis using g assms(2,3) by (simp add: Task_load_def)
qed

lemma TaskGraph_load_commit:
  assumes "TaskGraph_load g w = Inr e" "taskGraphId e' = taskGraphId e"
  shows "TaskGraph_load g (TaskGraph_commit e' w) = Inr e'"
proof -
  from assms(1) obtain g' where g: "g = Some g'" "taskGraphId e = g'"
    and f: "find (\<lambda>r. taskGraphId r = g') (TaskGraph w) = Some e"
    by (auto simp: TaskGraph_load_def find_Some_iff split: option.splits)
  have "find (\<lambda>r. taskGraphId r = g')
          (map (\<lambda>r. if taskGraphId r = g' then e' else r) (TaskGraph w)) = Some e'"
    using find_replace_same [of "\<lambda>r. taskGraphId r = g'" e' "TaskGraph w"] f g assms(2)
    by simp
  then show ?thesis using g assms(2) by (simp add: TaskGraph_load_def)
qed

lemma Task_load_commit_other:
  assumes "g \<noteq> Some (taskGraphId e') \<or> t \<noteq> taskId e'"
  shows "Task_load g t (Task_commit e' w) = Task_load g t w"
proof (cases g)
  case None
  then show ?thesis by (simp add: Task_load_def)
next
  case (Some g')
  have "find (\<lambda>r. taskGraphId r = g' \<and> taskId r = t)
          (map (\<lambda>r. if taskGraphId r = taskGraphId e' \<and> taskId r = taskId e' then e' else r) (Task w))
        = find (\<lambda>r. taskGraphId r = g' \<and> taskId r = t) (Task w)"
    using assms Some by (intro find_replace_other) auto
  then show ?thesis using Some by (simp add: Task_load_def)
qed

lemma TaskGraph_load_commit_other:
  assumes "g \<noteq> Some (taskGraphId e')"
  shows "TaskGraph_load g (TaskGraph_commit e' w) = TaskGraph_load g w"
proof (cases g)
  case None
  then show ?thesis by (simp add: TaskGraph_load_def)
next
  case (Some g')
  have "find (\<lambda>r. taskGraphId r = g')
          (map (\<lambda>r. if taskGraphId r = taskGraphId e' then e' else r) (TaskGraph w))
        = find (\<lambda>r. taskGraphId r = g') (TaskGraph w)"
    using assms Some by (intro find_replace_other) auto
  then show ?thesis using Some by (simp add: TaskGraph_load_def)
qed

text \<open>Writing back what was loaded changes nothing when keys are unique.\<close>

lemma TaskGraph_commit_loaded:
  assumes "TaskGraph_load g w = Inr e" "distinct (map taskGraphId (TaskGraph w))"
  shows "TaskGraph_commit e w = w"
proof -
  from assms(1) have mem: "e \<in> set (TaskGraph w)"
    by (auto simp: TaskGraph_load_def find_Some_iff split: option.splits)
  have inj: "inj_on taskGraphId (set (TaskGraph w))"
    using assms(2) by (simp add: distinct_map)
  have "map (\<lambda>r. if taskGraphId r = taskGraphId e then e else r) (TaskGraph w) = TaskGraph w"
    using mem inj by (intro map_idI) (auto dest: inj_onD)
  then show ?thesis by (simp add: TaskGraph_commit_def)
qed

section \<open>The graph-finish check\<close>

lemma checkTaskGraphFinished_eq:
  assumes "TaskGraph_load gid w = Inr loaded"
  shows "checkTaskGraphFinished x gid t w =
     (if t \<notin> set (requiresLeft (seen_graph x loaded))
      then (Inr (), TaskGraph_commit (seen_graph x loaded) w)
      else if removeAll t (requiresLeft (seen_graph x loaded)) = []
      then (if publish_fails x then Inl PublishFailed else Inr (),
            (TaskGraph_commit
               ((seen_graph x loaded)\<lparr>requiresLeft := [], state := ''finished''\<rparr>) w)
              \<lparr>publisher_calls := publisher_calls w @
                 [TaskGraphFinished
                    \<lparr>status_taskGraphId = taskGraphId loaded, status_state = ''finished''\<rparr>
                    (routing (seen_graph x loaded))]\<rparr>)
      else (Inr (),
            TaskGraph_commit
              ((seen_graph x loaded)
                 \<lparr>requiresLeft := removeAll t (requiresLeft (seen_graph x loaded))\<rparr>) w))"
  using assms
  by (simp add: checkTaskGraphFinished_def TaskGraph_modify_finish finish_mutator_eq
        publish_def status_def)


text \<open>
  Claim C2. Let \<open>g\<close> be the version of the task-graph read by the committed
  run of the mutator. If the task is not in \<open>requiresLeft g\<close>, what is written
  back is \<open>g\<close> as it was read and the publisher is not called (without a
  concurrent writer and with unique keys the world is unchanged). Otherwise
  the task is removed from \<open>requiresLeft\<close>; when other tasks remain nothing
  else changes and the publisher is not called; when none remains the state
  becomes \<open>finished\<close> and the publisher is called exactly once, on the world
  that holds the commit, with \<open>taskGraphFinished\<close> carrying the status of
  the committed task-graph and its routing.
\<close>

theorem checkTaskGraphFinished_behaviour:
  assumes "TaskGraph_load gid w = Inr loaded"
  shows "let g = seen_graph x loaded;
             left = removeAll t (requiresLeft g);
             r = checkTaskGraphFinished x gid t w
         in (t \<notin> set (requiresLeft g) \<longrightarrow> r = (Inr (), TaskGraph_commit g w)) \<and>
            (t \<notin> set (requiresLeft g) \<and> graph_conflicts x = [] \<and>
               distinct (map taskGraphId (TaskGraph w)) \<longrightarrow> r = (Inr (), w)) \<and>
            (t \<in> set (requiresLeft g) \<and> left \<noteq> [] \<longrightarrow>
               r = (Inr (), TaskGraph_commit (g\<lparr>requiresLeft := left\<rparr>) w)) \<and>
            (t \<in> set (requiresLeft g) \<and> left = [] \<longrightarrow>
               r = (if publish_fails x then Inl PublishFailed else Inr (),
                    (TaskGraph_commit (g\<lparr>requiresLeft := [], state := ''finished''\<rparr>) w)
                      \<lparr>publisher_calls := publisher_calls w @
                         [TaskGraphFinished
                            (status (g\<lparr>requiresLeft := [], state := ''finished''\<rparr>))
                            (routing g)]\<rparr>))"
proof -
  have same: "TaskGraph_commit loaded w = w"
    if "distinct (map taskGraphId (TaskGraph w))"
    using assms that by (rule TaskGraph_commit_loaded)
  show ?thesis
    unfolding Let_def checkTaskGraphFinished_eq [OF assms]
    by (auto simp: status_def same)
qed

theorem checkTaskGraphFinished_behaviour_witness:
  "TaskGraph_load (Some ''G'') ex_world = Inr ex_graph \<and>
   checkTaskGraphFinished quiet (Some ''G'') ''T'' ex_world =
     (Inr (),
      \<lparr>Task = [ex_task],
       TaskGraph = [ex_graph\<lparr>requiresLeft := [], state := ''finished''\<rparr>],
       queue_calls = [],
       publisher_calls =
         [TaskGraphFinished \<lparr>status_taskGraphId = ''G'', status_state = ''finished''\<rparr>
            ''route.G'']\<rparr>) \<and>
   checkTaskGraphFinished quiet (Some ''G'') ''U'' ex_world = (Inr (), ex_world)"
proof -
  have l: "TaskGraph_load (Some ''G'') ex_world = Inr ex_graph"
    by (simp add: TaskGraph_load_def ex_world_def ex_graph_def)
  show ?thesis
    using l checkTaskGraphFinished_behaviour [OF l, of quiet "''T''"]
      checkTaskGraphFinished_behaviour [OF l, of quiet "''U''"]
    by (simp add: Let_def seen_graph_def quiet_def status_def TaskGraph_commit_def
          ex_world_def ex_graph_def)
qed

section \<open>The graph-block chain\<close>

lemma blockTaskGraph_chain_eq:
  assumes "TaskGraph_load gid w = Inr loaded"
  shows "blockTaskGraph_chain x gid t w =
     (if state (seen_graph x loaded) = ''running''
      then (if publish_fails x then Inl PublishFailed else Inr (),
            (TaskGraph_commit ((seen_graph x loaded)\<lparr>state := ''blocked''\<rparr>) w)
              \<lparr>publisher_calls := publisher_calls w @
                 [TaskGraphBlocked
                    \<lparr>status_taskGraphId = taskGraphId loaded, status_state = ''blocked''\<rparr>
                    t (routing (seen_graph x loaded))]\<rparr>)
      else (Inr (), TaskGraph_commit (seen_graph x loaded) w))"
  using assms
  by (simp add: blockTaskGraph_chain_def TaskGraph_modify_block block_mutator_eq
        publish_def status_def)

lemma blockTaskGraph_chain_missing:
  "TaskGraph_load gid w = Inl e \<Longrightarrow> blockTaskGraph_chain x gid t w = (Inl e, w)"
  by (simp add: blockTaskGraph_chain_def)

lemma final_world_awaited [simp]: "final_world x (awaited p) = snd p"
  by (simp add: final_world_def run_detached_def awaited_def)

lemma final_world_blockTaskGraph [simp]:
  "final_world x (blockTaskGraph g t w) = snd (blockTaskGraph_chain x g t w)"
  by (simp add: final_world_def run_detached_def blockTaskGraph_def)

lemma blockTaskGraph_sel [simp]:
  "settled (blockTaskGraph g t w) = Inr ()"
  "at_settle (blockTaskGraph g t w) = w"
  "detached (blockTaskGraph g t w) = Some (g, t)"
  by (simp_all add: blockTaskGraph_def)

lemma awaited_sel [simp]:
  "settled (awaited p) = fst p"
  "at_settle (awaited p) = snd p"
  "detached (awaited p) = None"
  by (simp_all add: awaited_def)

section \<open>The three paths of the handlers\<close>

lemma Handlers_failed_eq:
  assumes "Task_load (routing_taskGraphId m) (payload_status_taskId m) w = Inr loaded"
  shows "Handlers_failed x m w =
     blockTaskGraph (routing_taskGraphId m) (payload_status_taskId m)
       (Task_commit
          ((seen_task x loaded)
             \<lparr>resolution := Some \<lparr>completed = False, success = False,
                                    resultUrl = None, logsUrl = None\<rparr>\<rparr>) w)"
  using assms
  by (simp add: Handlers_failed_def Let_def Task_modify_failed failed_mutator_def)

lemma Handlers_failed_missing:
  "Task_load (routing_taskGraphId m) (payload_status_taskId m) w = Inl e \<Longrightarrow>
     Handlers_failed x m w = awaited (Inl e, w)"
  by (simp add: Handlers_failed_def Let_def)

lemma Handlers_completed_missing:
  "Task_load (routing_taskGraphId m) (payload_status_taskId m) w = Inl e \<Longrightarrow>
     Handlers_completed x m w = awaited (Inl e, w)"
  by (simp add: Handlers_completed_def Let_def)

lemma Handlers_completed_rerun_eq:
  assumes "Task_load (routing_taskGraphId m) (payload_status_taskId m) w = Inr loaded"
    and "\<not> payload_success m" and "rerunsLeft (seen_task x loaded) > 0"
  shows "Handlers_completed x m w =
     awaited (rerunTask x (payload_status_taskId m)
       (Task_commit
          ((seen_task x loaded)\<lparr>rerunsLeft := rerunsLeft (seen_task x loaded) - 1\<rparr>) w))"
  using assms Task_load_key [OF assms(1)]
  by (simp add: Handlers_completed_def Let_def rerunTaskOrBlock_def Task_modify_rerun
        rerun_mutator_eq)

lemma Handlers_completed_exhausted_eq:
  assumes "Task_load (routing_taskGraphId m) (payload_status_taskId m) w = Inr loaded"
    and "\<not> payload_success m" and "\<not> rerunsLeft (seen_task x loaded) > 0"
  shows "Handlers_completed x m w =
     blockTaskGraph (routing_taskGraphId m) (payload_status_taskId m)
       (Task_commit
          ((seen_task x loaded)
             \<lparr>resolution := Some \<lparr>completed = True, success = False,
                                    resultUrl = payload_resultUrl m,
                                    logsUrl = payload_logsUrl m\<rparr>\<rparr>) w)"
  using assms Task_load_key [OF assms(1)]
  by (simp add: Handlers_completed_def Let_def rerunTaskOrBlock_def Task_modify_rerun
        rerun_mutator_eq)

lemma Handlers_completed_success_eq:
  assumes "Task_load (routing_taskGraphId m) (payload_status_taskId m) w = Inr loaded"
    and "payload_success m"
  shows "Handlers_completed x m w =
     awaited
       (if dependents (seen_task x loaded) \<noteq> []
        then scheduleDependentTasks x
               ((seen_task x loaded)
                  \<lparr>resolution := Some \<lparr>completed = True, success = True,
                                         resultUrl = payload_resultUrl m,
                                         logsUrl = payload_logsUrl m\<rparr>\<rparr>)
               (Task_commit
                  ((seen_task x loaded)
                     \<lparr>resolution := Some \<lparr>completed = True, success = True,
                                            resultUrl = payload_resultUrl m,
                                            logsUrl = payload_logsUrl m\<rparr>\<rparr>) w)
        else checkTaskGraphFinished x (routing_taskGraphId m) (payload_status_taskId m)
               (Task_commit
                  ((seen_task x loaded)
                     \<lparr>resolution := Some \<lparr>completed = True, success = True,
                                            resultUrl = payload_resultUrl m,
                                            logsUrl = payload_logsUrl m\<rparr>\<rparr>) w))"
  using assms Task_load_key [OF assms(1)]
  by (simp add: Handlers_completed_def Let_def Task_modify_success success_mutator_def)

lemma TaskGraph_load_Task_commit [simp]:
  "TaskGraph_load g (Task_commit e w) = TaskGraph_load g w"
  by (rule TaskGraph_load_cong) simp

lemma Task_load_TaskGraph_commit [simp]:
  "Task_load g t (TaskGraph_commit e w) = Task_load g t w"
  by (rule Task_load_cong) simp

lemma Task_load_publisher_calls [simp]:
  "Task_load g t (w\<lparr>publisher_calls := p\<rparr>) = Task_load g t w"
  by (rule Task_load_cong) simp

lemma Task_load_queue_calls [simp]:
  "Task_load g t (w\<lparr>queue_calls := p\<rparr>) = Task_load g t w"
  by (rule Task_load_cong) simp

lemma TaskGraph_load_publisher_calls [simp]:
  "TaskGraph_load g (w\<lparr>publisher_calls := p\<rparr>) = TaskGraph_load g w"
  by (rule TaskGraph_load_cong) simp

lemma TaskGraph_load_queue_calls [simp]:
  "TaskGraph_load g (w\<lparr>queue_calls := p\<rparr>) = TaskGraph_load g w"
  by (rule TaskGraph_load_cong) simp

text \<open>What the block chain leaves alone.\<close>

lemma blockTaskGraph_chain_frame:
  "Task (snd (blockTaskGraph_chain x g t w)) = Task w"
  "queue_calls (snd (blockTaskGraph_chain x g t w)) = queue_calls w"
  by (cases "TaskGraph_load g w";
      simp add: blockTaskGraph_chain_eq blockTaskGraph_chain_missing)+

text \<open>
  Claim C5. For a failed message whose task is in the store: the handler's
  promise is fulfilled; the task is written back with resolution
  \<open>{completed: false, success: false}\<close> and everything else, \<open>rerunsLeft\<close>
  included, as the committed run of the mutator read it; the execution queue
  receives no call; and the handler starts the graph-block chain with the
  task-graph id and task id of the message. When that chain has run, a
  task-graph read as \<open>running\<close> is written back as \<open>blocked\<close> and the
  publisher has received exactly one \<open>taskGraphBlocked\<close> call with the failed
  task id; a task-graph read in any other state is written back as read and
  the publisher has received no call.
\<close>

theorem Handlers_failed_behaviour:
  assumes "Task_load (routing_taskGraphId m) (payload_status_taskId m) w = Inr loaded"
  shows "let s = seen_task x loaded;
             t' = s\<lparr>resolution := Some \<lparr>completed = False, success = False,
                                         resultUrl = None, logsUrl = None\<rparr>\<rparr>;
             r = Handlers_failed x m w;
             w' = final_world x r
         in settled r = Inr () \<and>
            at_settle r = Task_commit t' w \<and>
            detached r = Some (routing_taskGraphId m, payload_status_taskId m) \<and>
            Task_load (routing_taskGraphId m) (payload_status_taskId m) w' = Inr t' \<and>
            rerunsLeft t' = rerunsLeft s \<and>
            queue_calls w' = queue_calls w \<and>
            (\<forall>gl. TaskGraph_load (routing_taskGraphId m) w = Inr gl \<longrightarrow>
               (state (seen_graph x gl) = ''running'' \<longrightarrow>
                  w' = (TaskGraph_commit ((seen_graph x gl)\<lparr>state := ''blocked''\<rparr>)
                          (Task_commit t' w))
                        \<lparr>publisher_calls := publisher_calls w @
                           [TaskGraphBlocked (status ((seen_graph x gl)\<lparr>state := ''blocked''\<rparr>))
                              (payload_status_taskId m) (routing (seen_graph x gl))]\<rparr>) \<and>
               (state (seen_graph x gl) \<noteq> ''running'' \<longrightarrow>
                  w' = TaskGraph_commit (seen_graph x gl) (Task_commit t' w)))"
proof -
  define t' where "t' = (seen_task x loaded)
      \<lparr>resolution := Some \<lparr>completed = False, success = False,
                             resultUrl = None, logsUrl = None\<rparr>\<rparr>"
  have r: "Handlers_failed x m w =
      blockTaskGraph (routing_taskGraphId m) (payload_status_taskId m) (Task_commit t' w)"
    unfolding t'_def by (rule Handlers_failed_eq [OF assms])
  have l: "Task_load (routing_taskGraphId m) (payload_status_taskId m) (Task_commit t' w) = Inr t'"
    by (rule Task_load_commit [OF assms]) (simp_all add: t'_def)
  have l': "Task_load (routing_taskGraphId m) (payload_status_taskId m)
              (snd (blockTaskGraph_chain x (routing_taskGraphId m) (payload_status_taskId m)
                 (Task_commit t' w))) = Inr t'"
    using l Task_load_cong [OF blockTaskGraph_chain_frame(1)] by simp
  have g: "snd (blockTaskGraph_chain x (routing_taskGraphId m) t (Task_commit t' w)) =
      (if state (seen_graph x gl) = ''running''
       then (TaskGraph_commit ((seen_graph x gl)\<lparr>state := ''blocked''\<rparr>) (Task_commit t' w))
              \<lparr>publisher_calls := publisher_calls w @
                 [TaskGraphBlocked (status ((seen_graph x gl)\<lparr>state := ''blocked''\<rparr>))
                    t (routing (seen_graph x gl))]\<rparr>
       else TaskGraph_commit (seen_graph x gl) (Task_commit t' w))"
    if "TaskGraph_load (routing_taskGraphId m) w = Inr gl" for gl t
    using that by (simp add: blockTaskGraph_chain_eq status_def)
  have k: "rerunsLeft t' = rerunsLeft (seen_task x loaded)"
    by (simp add: t'_def)
  show ?thesis
    unfolding Let_def t'_def [symmetric] r
    using l' g k by (simp add: blockTaskGraph_chain_frame)
qed


lemma ex_routing [simp]:
  "routing_taskGraphId ex_failed = Some ''G''"
  "routing_taskGraphId (ex_completed ok) = Some ''G''"
  "payload_status_taskId ex_failed = ''T''"
  "payload_status_taskId (ex_completed ok) = ''T''"
  by (simp_all add: routing_taskGraphId_def ex_failed_def ex_completed_def)

lemma ex_loads [simp]:
  "Task_load (Some ''G'') ''T'' (ex_world\<lparr>Task := [ex_task\<lparr>rerunsLeft := n\<rparr>]\<rparr>)
     = Inr (ex_task\<lparr>rerunsLeft := n\<rparr>)"
  "Task_load (Some ''G'') ''T'' ex_world = Inr ex_task"
  "TaskGraph_load (Some ''G'') (ex_world\<lparr>Task := ts\<rparr>) = Inr ex_graph"
  "TaskGraph_load (Some ''G'') ex_world = Inr ex_graph"
  by (simp_all add: Task_load_def TaskGraph_load_def ex_world_def ex_task_def ex_graph_def)

theorem Handlers_failed_behaviour_witness:
  "Task_load (routing_taskGraphId ex_failed) (payload_status_taskId ex_failed)
     (ex_world\<lparr>Task := [ex_task\<lparr>rerunsLeft := 5\<rparr>]\<rparr>) = Inr (ex_task\<lparr>rerunsLeft := 5\<rparr>) \<and>
   settled (Handlers_failed quiet ex_failed (ex_world\<lparr>Task := [ex_task\<lparr>rerunsLeft := 5\<rparr>]\<rparr>))
     = Inr () \<and>
   final_world quiet
       (Handlers_failed quiet ex_failed (ex_world\<lparr>Task := [ex_task\<lparr>rerunsLeft := 5\<rparr>]\<rparr>)) =
     \<lparr>Task = [ex_task\<lparr>rerunsLeft := 5,
                       resolution := Some \<lparr>completed = False, success = False,
                                             resultUrl = None, logsUrl = None\<rparr>\<rparr>],
      TaskGraph = [ex_graph\<lparr>state := ''blocked''\<rparr>],
      queue_calls = [],
      publisher_calls =
        [TaskGraphBlocked \<lparr>status_taskGraphId = ''G'', status_state = ''blocked''\<rparr>
           ''T'' ''route.G'']\<rparr>"
proof -
  have l: "Task_load (routing_taskGraphId ex_failed) (payload_status_taskId ex_failed)
     (ex_world\<lparr>Task := [ex_task\<lparr>rerunsLeft := 5\<rparr>]\<rparr>) = Inr (ex_task\<lparr>rerunsLeft := 5\<rparr>)"
    by simp
  show ?thesis
    using l Handlers_failed_behaviour [OF l, of quiet]
    by (simp add: Let_def quiet_def status_def Task_commit_def TaskGraph_commit_def
          Task_load_def TaskGraph_load_def ex_world_def ex_task_def ex_graph_def)
qed

text \<open>
  Claim C3 says that the decrement leaves the task without a resolution. On
  the code this fails: the failed message sets the resolution of \<open>T\<close>, which
  has five reruns left; the completed message without success that follows
  takes one rerun, asks the queue to rerun the task, and the resolution is
  still there.
\<close>

theorem rerun_keeps_resolution_counterexample:
  "Task ex_five_world = [ex_task\<lparr>rerunsLeft := 5\<rparr>] \<and>
   Task ex_five_after_failed =
     [ex_task\<lparr>rerunsLeft := 5,
              resolution := Some \<lparr>completed = False, success = False,
                                    resultUrl = None, logsUrl = None\<rparr>\<rparr>] \<and>
   Task ex_five_after_unsuccessful =
     [ex_task\<lparr>rerunsLeft := 4,
              resolution := Some \<lparr>completed = False, success = False,
                                    resultUrl = None, logsUrl = None\<rparr>\<rparr>] \<and>
   queue_calls ex_five_after_unsuccessful = [RerunTask ''T'']"
proof -
  have q: "task_conflicts quiet = []" "graph_conflicts quiet = []"
    "\<not> publish_fails quiet" "\<not> rerunTask_fails quiet"
    by (simp_all add: quiet_def)
  have l5: "Task_load (routing_taskGraphId ex_failed) (payload_status_taskId ex_failed)
      ex_five_world = Inr (ex_task\<lparr>rerunsLeft := 5\<rparr>)"
    by (simp add: ex_five_world_def)
  have lg: "TaskGraph_load (Some ''G'') (Task_commit t ex_five_world) = Inr ex_graph" for t
    by (simp add: ex_five_world_def)
  have f: "ex_five_after_failed =
     \<lparr>Task = [ex_task\<lparr>rerunsLeft := 5,
                       resolution := Some \<lparr>completed = False, success = False,
                                             resultUrl = None, logsUrl = None\<rparr>\<rparr>],
      TaskGraph = [ex_graph\<lparr>state := ''blocked''\<rparr>],
      queue_calls = [],
      publisher_calls =
        [TaskGraphBlocked \<lparr>status_taskGraphId = ''G'', status_state = ''blocked''\<rparr>
           ''T'' ''route.G'']\<rparr>"
    unfolding ex_five_after_failed_def
    by (simp add: Handlers_failed_eq [OF l5] blockTaskGraph_chain_eq [OF lg] q status_def)
       (simp add: ex_five_world_def ex_world_def ex_task_def ex_graph_def Task_commit_def
          TaskGraph_commit_def)
  have l: "Task_load (routing_taskGraphId (ex_completed False))
      (payload_status_taskId (ex_completed False)) ex_five_after_failed =
      Inr (ex_task\<lparr>rerunsLeft := 5,
                   resolution := Some \<lparr>completed = False, success = False,
                                         resultUrl = None, logsUrl = None\<rparr>\<rparr>)"
    by (simp add: f Task_load_def ex_task_def)
  have n: "\<not> payload_success (ex_completed False)"
    by (simp add: ex_completed_def)
  have p: "0 < rerunsLeft (seen_task quiet
      (ex_task\<lparr>rerunsLeft := 5,
               resolution := Some \<lparr>completed = False, success = False,
                                     resultUrl = None, logsUrl = None\<rparr>\<rparr>))"
    by (simp add: q)
  have u: "ex_five_after_unsuccessful =
     \<lparr>Task = [ex_task\<lparr>rerunsLeft := 4,
                       resolution := Some \<lparr>completed = False, success = False,
                                             resultUrl = None, logsUrl = None\<rparr>\<rparr>],
      TaskGraph = [ex_graph\<lparr>state := ''blocked''\<rparr>],
      queue_calls = [RerunTask ''T''],
      publisher_calls =
        [TaskGraphBlocked \<lparr>status_taskGraphId = ''G'', status_state = ''blocked''\<rparr>
           ''T'' ''route.G'']\<rparr>"
    unfolding ex_five_after_unsuccessful_def
    by (simp add: Handlers_completed_rerun_eq [OF l n p] rerunTask_def q)
       (simp add: f ex_task_def Task_commit_def)
  show ?thesis
    by (simp add: f u ex_five_world_def)
qed

text \<open>
  Claim C3, amended. For a completed message with \<open>success = false\<close> whose
  task is in the store, let \<open>s\<close> be the task as read by the committed run of
  the single \<open>modify\<close>. When \<open>rerunsLeft s > 0\<close> the task is written back
  with \<open>rerunsLeft\<close> one less and its resolution as it was (none when \<open>s\<close>
  had none, the earlier one otherwise), the execution queue receives one
  \<open>rerunTask\<close> call for the task, the handler's promise settles as that call
  does (a failure of the call is the handler's failure), and no block chain
  is started. Otherwise the task is written back with resolution
  \<open>{completed: true, success: false, resultUrl, logsUrl}\<close> and
  \<open>rerunsLeft\<close> untouched, the execution queue receives no call, and the
  handler starts the graph-block chain for this task, which blocks a
  task-graph read as \<open>running\<close> with exactly one \<open>taskGraphBlocked\<close> call
  carrying this task id. In both cases a \<open>rerunsLeft\<close> that was not
  negative is not negative afterwards.
\<close>

theorem rerunTaskOrBlock_behaviour:
  assumes "Task_load (routing_taskGraphId m) (payload_status_taskId m) w = Inr loaded"
    and "\<not> payload_success m"
  shows "let s = seen_task x loaded;
             res = Some \<lparr>completed = True, success = False,
                          resultUrl = payload_resultUrl m, logsUrl = payload_logsUrl m\<rparr>;
             r = Handlers_completed x m w;
             w' = final_world x r
         in (rerunsLeft s > 0 \<longrightarrow>
               settled r = (if rerunTask_fails x then Inl RerunFailed else Inr ()) \<and>
               detached r = None \<and>
               w' = (Task_commit (s\<lparr>rerunsLeft := rerunsLeft s - 1\<rparr>) w)
                      \<lparr>queue_calls := queue_calls w @ [RerunTask (payload_status_taskId m)]\<rparr> \<and>
               Task_load (routing_taskGraphId m) (payload_status_taskId m) w'
                 = Inr (s\<lparr>rerunsLeft := rerunsLeft s - 1\<rparr>)) \<and>
            (\<not> rerunsLeft s > 0 \<longrightarrow>
               settled r = Inr () \<and>
               at_settle r = Task_commit (s\<lparr>resolution := res\<rparr>) w \<and>
               detached r = Some (routing_taskGraphId m, payload_status_taskId m) \<and>
               Task_load (routing_taskGraphId m) (payload_status_taskId m) w'
                 = Inr (s\<lparr>resolution := res\<rparr>) \<and>
               queue_calls w' = queue_calls w \<and>
               (\<forall>gl. TaskGraph_load (routing_taskGraphId m) w = Inr gl \<longrightarrow>
                  (state (seen_graph x gl) = ''running'' \<longrightarrow>
                     w' = (TaskGraph_commit ((seen_graph x gl)\<lparr>state := ''blocked''\<rparr>)
                             (Task_commit (s\<lparr>resolution := res\<rparr>) w))
                           \<lparr>publisher_calls := publisher_calls w @
                              [TaskGraphBlocked
                                 (status ((seen_graph x gl)\<lparr>state := ''blocked''\<rparr>))
                                 (payload_status_taskId m) (routing (seen_graph x gl))]\<rparr>) \<and>
                  (state (seen_graph x gl) \<noteq> ''running'' \<longrightarrow>
                     w' = TaskGraph_commit (seen_graph x gl)
                            (Task_commit (s\<lparr>resolution := res\<rparr>) w)))) \<and>
            (0 \<le> rerunsLeft s \<longrightarrow>
               (\<exists>t'. Task_load (routing_taskGraphId m) (payload_status_taskId m) w' = Inr t' \<and>
                     0 \<le> rerunsLeft t'))"
proof (cases "rerunsLeft (seen_task x loaded) > 0")
  case True
  define t' where "t' = (seen_task x loaded)\<lparr>rerunsLeft := rerunsLeft (seen_task x loaded) - 1\<rparr>"
  have r: "Handlers_completed x m w =
      awaited (rerunTask x (payload_status_taskId m) (Task_commit t' w))"
    unfolding t'_def by (rule Handlers_completed_rerun_eq [OF assms True])
  have l: "Task_load (routing_taskGraphId m) (payload_status_taskId m) (Task_commit t' w) = Inr t'"
    by (rule Task_load_commit [OF assms(1)]) (simp_all add: t'_def)
  have k: "0 \<le> rerunsLeft t'"
    using True by (simp add: t'_def)
  show ?thesis
    unfolding Let_def t'_def [symmetric] r
    using True l k by (simp add: rerunTask_def)
next
  case False
  define t' where "t' = (seen_task x loaded)
      \<lparr>resolution := Some \<lparr>completed = True, success = False,
                             resultUrl = payload_resultUrl m, logsUrl = payload_logsUrl m\<rparr>\<rparr>"
  have r: "Handlers_completed x m w =
      blockTaskGraph (routing_taskGraphId m) (payload_status_taskId m) (Task_commit t' w)"
    unfolding t'_def by (rule Handlers_completed_exhausted_eq [OF assms False])
  have l: "Task_load (routing_taskGraphId m) (payload_status_taskId m) (Task_commit t' w) = Inr t'"
    by (rule Task_load_commit [OF assms(1)]) (simp_all add: t'_def)
  have l': "Task_load (routing_taskGraphId m) (payload_status_taskId m)
              (snd (blockTaskGraph_chain x (routing_taskGraphId m) (payload_status_taskId m)
                 (Task_commit t' w))) = Inr t'"
    using l Task_load_cong [OF blockTaskGraph_chain_frame(1)] by simp
  have g: "snd (blockTaskGraph_chain x (routing_taskGraphId m) t (Task_commit t' w)) =
      (if state (seen_graph x gl) = ''running''
       then (TaskGraph_commit ((seen_graph x gl)\<lparr>state := ''blocked''\<rparr>) (Task_commit t' w))
              \<lparr>publisher_calls := publisher_calls w @
                 [TaskGraphBlocked (status ((seen_graph x gl)\<lparr>state := ''blocked''\<rparr>))
                    t (routing (seen_graph x gl))]\<rparr>
       else TaskGraph_commit (seen_graph x gl) (Task_commit t' w))"
    if "TaskGraph_load (routing_taskGraphId m) w = Inr gl" for gl t
    using that by (simp add: blockTaskGraph_chain_eq status_def)
  have k: "rerunsLeft t' = rerunsLeft (seen_task x loaded)"
    by (simp add: t'_def)
  show ?thesis
    unfolding Let_def t'_def [symmetric] r
    using False l' g k by (simp add: blockTaskGraph_chain_frame)
qed

theorem rerunTaskOrBlock_behaviour_witness:
  "Task_load (routing_taskGraphId (ex_completed False)) (payload_status_taskId (ex_completed False))
     (ex_world\<lparr>Task := [ex_task\<lparr>rerunsLeft := 1\<rparr>]\<rparr>) = Inr (ex_task\<lparr>rerunsLeft := 1\<rparr>) \<and>
   \<not> payload_success (ex_completed False) \<and>
   settled (Handlers_completed (quiet\<lparr>rerunTask_fails := True\<rparr>) (ex_completed False)
              (ex_world\<lparr>Task := [ex_task\<lparr>rerunsLeft := 1\<rparr>]\<rparr>)) = Inl RerunFailed \<and>
   final_world quiet
       (Handlers_completed quiet (ex_completed False)
          (ex_world\<lparr>Task := [ex_task\<lparr>rerunsLeft := 1\<rparr>]\<rparr>)) =
     \<lparr>Task = [ex_task], TaskGraph = [ex_graph], queue_calls = [RerunTask ''T''],
      publisher_calls = []\<rparr> \<and>
   Task_load (routing_taskGraphId (ex_completed False)) (payload_status_taskId (ex_completed False))
     ex_world = Inr ex_task \<and>
   final_world quiet (Handlers_completed quiet (ex_completed False) ex_world) =
     \<lparr>Task = [ex_task\<lparr>resolution := Some \<lparr>completed = True, success = False,
                                            resultUrl = Some ''result'',
                                            logsUrl = Some ''logs''\<rparr>\<rparr>],
      TaskGraph = [ex_graph\<lparr>state := ''blocked''\<rparr>],
      queue_calls = [],
      publisher_calls =
        [TaskGraphBlocked \<lparr>status_taskGraphId = ''G'', status_state = ''blocked''\<rparr>
           ''T'' ''route.G'']\<rparr>"
proof -
  have l1: "Task_load (routing_taskGraphId (ex_completed False))
      (payload_status_taskId (ex_completed False))
      (ex_world\<lparr>Task := [ex_task\<lparr>rerunsLeft := 1\<rparr>]\<rparr>) = Inr (ex_task\<lparr>rerunsLeft := 1\<rparr>)"
    by simp
  have l0: "Task_load (routing_taskGraphId (ex_completed False))
      (payload_status_taskId (ex_completed False)) ex_world = Inr ex_task"
    by simp
  have f: "\<not> payload_success (ex_completed False)"
    by (simp add: ex_completed_def)
  show ?thesis
    using l1 l0 f
      rerunTaskOrBlock_behaviour [OF l1 f, of "quiet\<lparr>rerunTask_fails := True\<rparr>"]
      rerunTaskOrBlock_behaviour [OF l1 f, of quiet]
      rerunTaskOrBlock_behaviour [OF l0 f, of quiet]
    by (simp add: Let_def quiet_def status_def Task_commit_def TaskGraph_commit_def
          Task_load_def TaskGraph_load_def routing_taskGraphId_def ex_world_def ex_task_def
          ex_graph_def ex_completed_def)
qed

section \<open>The block chain is started, not awaited\<close>

text \<open>
  Claim C1 says that the handler's promise settles only after the graph-block
  transition is committed and \<open>taskGraphBlocked\<close> is published, and that a
  failure on that path is the handler's failure. On the code this fails.
  Task-graph \<open>G\<close> is running, task \<open>T\<close> has no rerun left and the publisher
  will report a failure. For the failed message, and for the completed message
  with \<open>success = false\<close>, the handler's promise is fulfilled while the
  task-graph is still \<open>running\<close> and the publisher has received nothing; the
  started chain then blocks the task-graph and ends in the publisher's
  failure, which nobody receives.
\<close>

theorem blockTaskGraph_not_awaited:
  "settled (Handlers_failed (quiet\<lparr>publish_fails := True\<rparr>) ex_failed ex_world) = Inr () \<and>
   TaskGraph (at_settle (Handlers_failed (quiet\<lparr>publish_fails := True\<rparr>) ex_failed ex_world))
     = [ex_graph] \<and>
   state ex_graph = ''running'' \<and>
   publisher_calls (at_settle (Handlers_failed (quiet\<lparr>publish_fails := True\<rparr>) ex_failed ex_world))
     = [] \<and>
   fst (run_detached (quiet\<lparr>publish_fails := True\<rparr>)
          (Handlers_failed (quiet\<lparr>publish_fails := True\<rparr>) ex_failed ex_world))
     = Inl PublishFailed \<and>
   TaskGraph (final_world (quiet\<lparr>publish_fails := True\<rparr>)
                (Handlers_failed (quiet\<lparr>publish_fails := True\<rparr>) ex_failed ex_world))
     = [ex_graph\<lparr>state := ''blocked''\<rparr>] \<and>
   settled (Handlers_completed (quiet\<lparr>publish_fails := True\<rparr>) (ex_completed False) ex_world)
     = Inr () \<and>
   TaskGraph (at_settle (Handlers_completed (quiet\<lparr>publish_fails := True\<rparr>) (ex_completed False)
                           ex_world))
     = [ex_graph] \<and>
   publisher_calls (at_settle (Handlers_completed (quiet\<lparr>publish_fails := True\<rparr>)
                                 (ex_completed False) ex_world))
     = [] \<and>
   fst (run_detached (quiet\<lparr>publish_fails := True\<rparr>)
          (Handlers_completed (quiet\<lparr>publish_fails := True\<rparr>) (ex_completed False) ex_world))
     = Inl PublishFailed \<and>
   TaskGraph (final_world (quiet\<lparr>publish_fails := True\<rparr>)
                (Handlers_completed (quiet\<lparr>publish_fails := True\<rparr>) (ex_completed False)
                   ex_world))
     = [ex_graph\<lparr>state := ''blocked''\<rparr>]"
proof -
  have q: "task_conflicts (quiet\<lparr>publish_fails := True\<rparr>) = []"
    "graph_conflicts (quiet\<lparr>publish_fails := True\<rparr>) = []"
    "publish_fails (quiet\<lparr>publish_fails := True\<rparr>)"
    by (simp_all add: quiet_def)
  have f: "Handlers_failed (quiet\<lparr>publish_fails := True\<rparr>) ex_failed ex_world =
      blockTaskGraph (Some ''G'') ''T''
        (Task_commit (ex_task\<lparr>resolution := Some \<lparr>completed = False, success = False,
                                                    resultUrl = None, logsUrl = None\<rparr>\<rparr>) ex_world)"
    using Handlers_failed_eq [of ex_failed ex_world ex_task "quiet\<lparr>publish_fails := True\<rparr>"] q
    by simp
  have n: "\<not> payload_success (ex_completed False)" "\<not> 0 < rerunsLeft ex_task"
    "payload_resultUrl (ex_completed False) = Some ''result''"
    "payload_logsUrl (ex_completed False) = Some ''logs''"
    by (simp_all add: ex_completed_def ex_task_def)
  have c: "Handlers_completed (quiet\<lparr>publish_fails := True\<rparr>) (ex_completed False) ex_world =
      blockTaskGraph (Some ''G'') ''T''
        (Task_commit (ex_task\<lparr>resolution := Some \<lparr>completed = True, success = False,
                                                    resultUrl = Some ''result'',
                                                    logsUrl = Some ''logs''\<rparr>\<rparr>) ex_world)"
    using Handlers_completed_exhausted_eq
            [of "ex_completed False" ex_world ex_task "quiet\<lparr>publish_fails := True\<rparr>"] q n
    by simp
  have g: "TaskGraph ex_world = [ex_graph]" "publisher_calls ex_world = []"
    "state ex_graph = ''running''" "taskGraphId ex_graph = ''G''"
    "routing ex_graph = ''route.G''"
    by (simp_all add: ex_world_def ex_graph_def)
  have lg: "TaskGraph_load (Some ''G'') (Task_commit t ex_world) = Inr ex_graph" for t
    by simp
  have b: "blockTaskGraph_chain (quiet\<lparr>publish_fails := True\<rparr>) (Some ''G'') ''T''
             (Task_commit t ex_world) =
      (Inl PublishFailed,
       (TaskGraph_commit (ex_graph\<lparr>state := ''blocked''\<rparr>) (Task_commit t ex_world))
         \<lparr>publisher_calls :=
            [TaskGraphBlocked \<lparr>status_taskGraphId = ''G'', status_state = ''blocked''\<rparr>
               ''T'' ''route.G'']\<rparr>)" for t
    unfolding blockTaskGraph_chain_eq [OF lg]
    by (simp add: q g)
  show ?thesis
    unfolding f c final_world_blockTaskGraph
    by (simp add: run_detached_def b g)
qed

section \<open>The success path\<close>

lemma schedule_each_frame:
  "Task (snd (schedule_each x g ds w)) = Task w \<and>
   TaskGraph (snd (schedule_each x g ds w)) = TaskGraph w \<and>
   publisher_calls (snd (schedule_each x g ds w)) = publisher_calls w"
proof (induction ds arbitrary: w)
  case Nil
  show ?case by simp
next
  case (Cons d ds)
  show ?case
  proof (cases "Task_load (Some g) d w")
    case (Inl e)
    then show ?thesis by simp
  next
    case (Inr dep)
    show ?thesis
    proof (cases "list_all (has_succeeded w g) (requires dep)")
      case False
      with Inr Cons.IH [of w] show ?thesis by simp
    next
      case True
      show ?thesis
      proof (cases "scheduleTask_fails x")
        case True
        with Inr \<open>list_all (has_succeeded w g) (requires dep)\<close> show ?thesis
          by (simp add: scheduleTask_def)
      next
        case False
        with Inr \<open>list_all (has_succeeded w g) (requires dep)\<close>
          Cons.IH [of "w\<lparr>queue_calls := queue_calls w @ [ScheduleTask d]\<rparr>"]
        show ?thesis
          by (simp add: scheduleTask_def)
      qed
    qed
  qed
qed

lemma scheduleDependentTasks_frame:
  "Task (snd (scheduleDependentTasks x t w)) = Task w"
  "TaskGraph (snd (scheduleDependentTasks x t w)) = TaskGraph w"
  "publisher_calls (snd (scheduleDependentTasks x t w)) = publisher_calls w"
  using schedule_each_frame [of x "taskGraphId t" "dependents t" w]
  by (simp_all add: scheduleDependentTasks_def)

lemma checkTaskGraphFinished_missing:
  "TaskGraph_load gid w = Inl e \<Longrightarrow> checkTaskGraphFinished x gid t w = (Inl e, w)"
  by (simp add: checkTaskGraphFinished_def)

lemma checkTaskGraphFinished_frame:
  "Task (snd (checkTaskGraphFinished x g t w)) = Task w"
  "queue_calls (snd (checkTaskGraphFinished x g t w)) = queue_calls w"
  "filter is_blocked_event (publisher_calls (snd (checkTaskGraphFinished x g t w)))
     = filter is_blocked_event (publisher_calls w)"
  by (cases "TaskGraph_load g w";
      simp add: checkTaskGraphFinished_eq checkTaskGraphFinished_missing)+

lemma checkTaskGraphFinished_graphs:
  assumes "TaskGraph_load gid w = Inr loaded"
  shows "TaskGraph (snd (checkTaskGraphFinished x gid t w)) =
     TaskGraph (TaskGraph_commit (snd (finish_mutator t False (seen_graph x loaded))) w)"
  by (simp add: checkTaskGraphFinished_eq [OF assms] finish_mutator_eq)

lemma blockTaskGraph_chain_graphs:
  assumes "TaskGraph_load gid w = Inr loaded"
  shows "TaskGraph (snd (blockTaskGraph_chain x gid t w)) =
     TaskGraph (TaskGraph_commit (snd (block_mutator False (seen_graph x loaded))) w)"
  by (simp add: blockTaskGraph_chain_eq [OF assms] block_mutator_eq)

lemma seen_graph_cases:
  "seen_graph x e = e \<or> (\<exists>c\<in>set (graph_conflicts x). seen_graph x e = reload_graph e c)"
  by (cases "graph_conflicts x" rule: rev_cases) (auto simp: seen_graph_def)

lemma finish_mutator_key [simp]: "taskGraphId (snd (finish_mutator t v g)) = taskGraphId g"
  by (simp add: finish_mutator_eq)

lemma block_mutator_key [simp]: "taskGraphId (snd (block_mutator v g)) = taskGraphId g"
  by (simp add: block_mutator_eq)

text \<open>
  After the graph-finish check, a task-graph found \<open>blocked\<close> in the store
  was loaded as \<open>blocked\<close> before or was written as \<open>blocked\<close> by a
  concurrent handler.
\<close>

lemma checkTaskGraphFinished_blocked:
  assumes "TaskGraph_load g (snd (checkTaskGraphFinished x gid t w)) = Inr g'"
    and "state g' = ''blocked''"
  shows "\<exists>g0. (TaskGraph_load g w = Inr g0 \<or> g0 \<in> set (graph_conflicts x)) \<and>
              state g0 = ''blocked''"
proof (cases "TaskGraph_load gid w")
  case (Inl e)
  with assms show ?thesis by (auto simp: checkTaskGraphFinished_missing)
next
  case (Inr loaded)
  define gc where "gc = snd (finish_mutator t False (seen_graph x loaded))"
  have key: "taskGraphId gc = taskGraphId loaded" by (simp add: gc_def)
  have gid: "gid = Some (taskGraphId loaded)" using Inr by (rule TaskGraph_load_key)
  have l: "TaskGraph_load g (TaskGraph_commit gc w) = Inr g'"
    using assms(1) TaskGraph_load_cong [OF checkTaskGraphFinished_graphs [OF Inr, of x t], of g]
    by (simp add: gc_def)
  show ?thesis
  proof (cases "g = gid")
    case False
    then have "TaskGraph_load g (TaskGraph_commit gc w) = TaskGraph_load g w"
      using gid key by (intro TaskGraph_load_commit_other) simp
    with l assms(2) show ?thesis by auto
  next
    case True
    have "TaskGraph_load gid (TaskGraph_commit gc w) = Inr gc"
      using Inr key by (rule TaskGraph_load_commit)
    with l True have "g' = gc" by simp
    with assms(2) have "state (seen_graph x loaded) = ''blocked''"
      by (auto simp: gc_def finish_mutator_eq split: if_splits)
    with seen_graph_cases [of x loaded] Inr True show ?thesis
      by (auto simp: reload_graph_def)
  qed
qed

text \<open>
  Claim C8. For a completed message with \<open>success = true\<close> whose task is in
  the store: the task is written back with resolution
  \<open>{completed: true, success: true, resultUrl, logsUrl}\<close>; then dependent
  scheduling runs when the task has dependents and the graph-finish check
  runs when it has none, and the handler's promise settles as that step does.
  No block chain is started, the publisher receives no \<open>taskGraphBlocked\<close>
  call, and a task-graph found \<open>blocked\<close> afterwards was \<open>blocked\<close> before
  or was written so by a concurrent handler.
\<close>

theorem Handlers_completed_success_behaviour:
  assumes "Task_load (routing_taskGraphId m) (payload_status_taskId m) w = Inr loaded"
    and "payload_success m"
  shows "let s = seen_task x loaded;
             t' = s\<lparr>resolution := Some \<lparr>completed = True, success = True,
                                         resultUrl = payload_resultUrl m,
                                         logsUrl = payload_logsUrl m\<rparr>\<rparr>;
             r = Handlers_completed x m w;
             w' = final_world x r
         in r = awaited
                  (if dependents s \<noteq> []
                   then scheduleDependentTasks x t' (Task_commit t' w)
                   else checkTaskGraphFinished x (routing_taskGraphId m)
                          (payload_status_taskId m) (Task_commit t' w)) \<and>
            Task_load (routing_taskGraphId m) (payload_status_taskId m) w' = Inr t' \<and>
            detached r = None \<and>
            filter is_blocked_event (publisher_calls w')
              = filter is_blocked_event (publisher_calls w) \<and>
            (\<forall>g g'. TaskGraph_load g w' = Inr g' \<and> state g' = ''blocked'' \<longrightarrow>
               (\<exists>g0. (TaskGraph_load g w = Inr g0 \<or> g0 \<in> set (graph_conflicts x)) \<and>
                     state g0 = ''blocked''))"
proof -
  define t' where "t' = (seen_task x loaded)
      \<lparr>resolution := Some \<lparr>completed = True, success = True,
                             resultUrl = payload_resultUrl m, logsUrl = payload_logsUrl m\<rparr>\<rparr>"
  define w1 where "w1 = Task_commit t' w"
  have r: "Handlers_completed x m w =
      awaited (if dependents (seen_task x loaded) \<noteq> []
               then scheduleDependentTasks x t' w1
               else checkTaskGraphFinished x (routing_taskGraphId m)
                      (payload_status_taskId m) w1)"
    unfolding t'_def w1_def by (rule Handlers_completed_success_eq [OF assms])
  have l: "Task_load (routing_taskGraphId m) (payload_status_taskId m) w1 = Inr t'"
    unfolding w1_def by (rule Task_load_commit [OF assms(1)]) (simp_all add: t'_def)
  have p: "publisher_calls w1 = publisher_calls w"
    by (simp add: w1_def)
  have gl: "TaskGraph_load g w1 = TaskGraph_load g w" for g
    by (simp add: w1_def)
  show ?thesis
  proof (cases "dependents (seen_task x loaded) \<noteq> []")
    case True
    have "Task_load (routing_taskGraphId m) (payload_status_taskId m)
            (snd (scheduleDependentTasks x t' w1)) = Inr t'"
      using l Task_load_cong [OF scheduleDependentTasks_frame(1)] by simp
    moreover have "TaskGraph_load g (snd (scheduleDependentTasks x t' w1)) = TaskGraph_load g w"
      for g
      using gl TaskGraph_load_cong [OF scheduleDependentTasks_frame(2)] by simp
    ultimately show ?thesis
      unfolding Let_def t'_def [symmetric] w1_def [symmetric] r
      using True p by (auto simp: scheduleDependentTasks_frame)
  next
    case False
    have "Task_load (routing_taskGraphId m) (payload_status_taskId m)
            (snd (checkTaskGraphFinished x (routing_taskGraphId m) (payload_status_taskId m) w1))
          = Inr t'"
      using l Task_load_cong [OF checkTaskGraphFinished_frame(1)] by simp
    moreover have "\<exists>g0. (TaskGraph_load g w = Inr g0 \<or> g0 \<in> set (graph_conflicts x)) \<and>
                        state g0 = ''blocked''"
      if "TaskGraph_load g
            (snd (checkTaskGraphFinished x (routing_taskGraphId m) (payload_status_taskId m) w1))
          = Inr g'" "state g' = ''blocked''" for g g'
      using checkTaskGraphFinished_blocked [OF that] gl by simp
    ultimately show ?thesis
      unfolding Let_def t'_def [symmetric] w1_def [symmetric] r
      using False p by (simp add: checkTaskGraphFinished_frame)
  qed
qed

theorem Handlers_completed_success_behaviour_witness:
  "Task_load (routing_taskGraphId (ex_completed True)) (payload_status_taskId (ex_completed True))
     ex_world = Inr ex_task \<and>
   payload_success (ex_completed True) \<and>
   Handlers_completed quiet (ex_completed True) ex_world =
     \<lparr>settled = Inr (),
      at_settle =
        \<lparr>Task = [ex_task\<lparr>resolution := Some \<lparr>completed = True, success = True,
                                               resultUrl = Some ''result'',
                                               logsUrl = Some ''logs''\<rparr>\<rparr>],
         TaskGraph = [ex_graph\<lparr>requiresLeft := [], state := ''finished''\<rparr>],
         queue_calls = [],
         publisher_calls =
           [TaskGraphFinished \<lparr>status_taskGraphId = ''G'', status_state = ''finished''\<rparr>
              ''route.G'']\<rparr>,
      detached = None\<rparr> \<and>
   Task_load (routing_taskGraphId (ex_completed True\<lparr>payload_status_taskId := ''A''\<rparr>))
     (payload_status_taskId (ex_completed True\<lparr>payload_status_taskId := ''A''\<rparr>))
     ex_chain_world = Inr (hd (Task ex_chain_world)) \<and>
   settled (Handlers_completed quiet (ex_completed True\<lparr>payload_status_taskId := ''A''\<rparr>)
              ex_chain_world) = Inr () \<and>
   queue_calls (at_settle (Handlers_completed quiet
                  (ex_completed True\<lparr>payload_status_taskId := ''A''\<rparr>) ex_chain_world))
     = [ScheduleTask ''B''] \<and>
   publisher_calls (at_settle (Handlers_completed quiet
                  (ex_completed True\<lparr>payload_status_taskId := ''A''\<rparr>) ex_chain_world))
     = [] \<and>
   TaskGraph (at_settle (Handlers_completed quiet
                  (ex_completed True\<lparr>payload_status_taskId := ''A''\<rparr>) ex_chain_world))
     = [ex_graph\<lparr>requiresLeft := [''B'']\<rparr>]"
proof -
  have l: "Task_load (routing_taskGraphId (ex_completed True))
      (payload_status_taskId (ex_completed True)) ex_world = Inr ex_task"
    by simp
  have la: "Task_load (routing_taskGraphId (ex_completed True\<lparr>payload_status_taskId := ''A''\<rparr>))
     (payload_status_taskId (ex_completed True\<lparr>payload_status_taskId := ''A''\<rparr>))
     ex_chain_world = Inr (hd (Task ex_chain_world))"
    by (simp add: routing_taskGraphId_def ex_completed_def Task_load_def ex_chain_world_def)
  have s: "payload_success (ex_completed True)"
    "payload_success (ex_completed True\<lparr>payload_status_taskId := ''A''\<rparr>)"
    by (simp_all add: ex_completed_def)
  show ?thesis
    using l la s
      Handlers_completed_success_behaviour [OF l s(1), of quiet]
      Handlers_completed_success_behaviour [OF la s(2), of quiet]
    by (simp add: Let_def quiet_def status_def Task_commit_def TaskGraph_commit_def
          Task_load_def TaskGraph_load_def routing_taskGraphId_def awaited_def
          checkTaskGraphFinished_def TaskGraph_modify_def finish_mutator_def publish_def
          reload_graph_def scheduleDependentTasks_def scheduleTask_def has_succeeded_def
          ex_world_def ex_task_def ex_graph_def ex_completed_def ex_chain_world_def)
qed

section \<open>Transitions of the task-graph state\<close>

lemma ex_exchange [simp]:
  "exchange ex_failed = ''task-failed''"
  "exchange (ex_completed ok) = ''task-completed''"
  "payload_success (ex_completed ok) = ok"
  "payload_resultUrl (ex_completed ok) = Some ''result''"
  "payload_logsUrl (ex_completed ok) = Some ''logs''"
  by (simp_all add: ex_failed_def ex_completed_def)

lemma quiet_sel [simp]:
  "task_conflicts quiet = []" "graph_conflicts quiet = []"
  "\<not> rerunTask_fails quiet" "\<not> scheduleTask_fails quiet" "\<not> publish_fails quiet"
  by (simp_all add: quiet_def)




text \<open>The ways a message can go through the callback.\<close>

lemma on_message_cases:
  obtains
    (unexpected) "exchange m \<noteq> ce" "exchange m \<noteq> fe"
      "on_message ce fe x m w = awaited (Inl (UnexpectedExchange (exchange m)), w)"
  | (missing) e where
      "Task_load (routing_taskGraphId m) (payload_status_taskId m) w = Inl e"
      "on_message ce fe x m w = awaited (Inl e, w)"
  | (failed) loaded where
      "exchange m \<noteq> ce" "exchange m = fe"
      "Task_load (routing_taskGraphId m) (payload_status_taskId m) w = Inr loaded"
      "on_message ce fe x m w =
         blockTaskGraph (routing_taskGraphId m) (payload_status_taskId m)
           (Task_commit
              ((seen_task x loaded)
                 \<lparr>resolution := Some \<lparr>completed = False, success = False,
                                        resultUrl = None, logsUrl = None\<rparr>\<rparr>) w)"
  | (rerun) loaded where
      "exchange m = ce" "\<not> payload_success m" "rerunsLeft (seen_task x loaded) > 0"
      "Task_load (routing_taskGraphId m) (payload_status_taskId m) w = Inr loaded"
      "on_message ce fe x m w =
         awaited (rerunTask x (payload_status_taskId m)
           (Task_commit
              ((seen_task x loaded)\<lparr>rerunsLeft := rerunsLeft (seen_task x loaded) - 1\<rparr>) w))"
  | (exhausted) loaded where
      "exchange m = ce" "\<not> payload_success m" "\<not> rerunsLeft (seen_task x loaded) > 0"
      "Task_load (routing_taskGraphId m) (payload_status_taskId m) w = Inr loaded"
      "on_message ce fe x m w =
         blockTaskGraph (routing_taskGraphId m) (payload_status_taskId m)
           (Task_commit
              ((seen_task x loaded)
                 \<lparr>resolution := Some \<lparr>completed = True, success = False,
                                        resultUrl = payload_resultUrl m,
                                        logsUrl = payload_logsUrl m\<rparr>\<rparr>) w)"
  | (schedule) loaded where
      "exchange m = ce" "payload_success m" "dependents (seen_task x loaded) \<noteq> []"
      "Task_load (routing_taskGraphId m) (payload_status_taskId m) w = Inr loaded"
      "on_message ce fe x m w =
         awaited (scheduleDependentTasks x
           ((seen_task x loaded)
              \<lparr>resolution := Some \<lparr>completed = True, success = True,
                                     resultUrl = payload_resultUrl m,
                                     logsUrl = payload_logsUrl m\<rparr>\<rparr>)
           (Task_commit
              ((seen_task x loaded)
                 \<lparr>resolution := Some \<lparr>completed = True, success = True,
                                        resultUrl = payload_resultUrl m,
                                        logsUrl = payload_logsUrl m\<rparr>\<rparr>) w))"
  | (finish) loaded where
      "exchange m = ce" "payload_success m" "dependents (seen_task x loaded) = []"
      "Task_load (routing_taskGraphId m) (payload_status_taskId m) w = Inr loaded"
      "on_message ce fe x m w =
         awaited (checkTaskGraphFinished x (routing_taskGraphId m) (payload_status_taskId m)
           (Task_commit
              ((seen_task x loaded)
                 \<lparr>resolution := Some \<lparr>completed = True, success = True,
                                        resultUrl = payload_resultUrl m,
                                        logsUrl = payload_logsUrl m\<rparr>\<rparr>) w))"
proof (cases "exchange m = ce")
  case True
  then have h: "on_message ce fe x m w = Handlers_completed x m w"
    by (simp add: on_message_def)
  show ?thesis
  proof (cases "Task_load (routing_taskGraphId m) (payload_status_taskId m) w")
    case (Inl e)
    then show ?thesis
      using h missing by (simp add: Handlers_completed_missing)
  next
    case (Inr loaded)
    show ?thesis
    proof (cases "payload_success m")
      case s: True
      show ?thesis
      proof (cases "dependents (seen_task x loaded) \<noteq> []")
        case True
        then show ?thesis
          using schedule [OF \<open>exchange m = ce\<close> s True Inr] h
          by (simp add: Handlers_completed_success_eq [OF Inr s])
      next
        case False
        then show ?thesis
          using finish [OF \<open>exchange m = ce\<close> s _ Inr] h
          by (simp add: Handlers_completed_success_eq [OF Inr s])
      qed
    next
      case f: False
      show ?thesis
      proof (cases "rerunsLeft (seen_task x loaded) > 0")
        case True
        then show ?thesis
          using rerun [OF \<open>exchange m = ce\<close> f True Inr] h
          by (simp add: Handlers_completed_rerun_eq [OF Inr f True])
      next
        case False
        then show ?thesis
          using exhausted [OF \<open>exchange m = ce\<close> f False Inr] h
          by (simp add: Handlers_completed_exhausted_eq [OF Inr f False])
      qed
    qed
  qed
next
  case nc: False
  show ?thesis
  proof (cases "exchange m = fe")
    case True
    then have h: "on_message ce fe x m w = Handlers_failed x m w"
      using nc by (simp add: on_message_def)
    show ?thesis
    proof (cases "Task_load (routing_taskGraphId m) (payload_status_taskId m) w")
      case (Inl e)
      then show ?thesis
        using h missing by (simp add: Handlers_failed_missing)
    next
      case (Inr loaded)
      then show ?thesis
        using failed [OF nc True Inr] h by (simp add: Handlers_failed_eq [OF Inr])
    qed
  next
    case False
    then show ?thesis
      using unexpected nc by (simp add: on_message_def)
  qed
qed






section \<open>The resolution of a task over a run of messages\<close>

lemma ex_after_failed_eq:
  "ex_after_failed =
     \<lparr>Task = [ex_task\<lparr>resolution := Some \<lparr>completed = False, success = False,
                                            resultUrl = None, logsUrl = None\<rparr>\<rparr>],
      TaskGraph = [ex_graph\<lparr>state := ''blocked''\<rparr>],
      queue_calls = [],
      publisher_calls =
        [TaskGraphBlocked \<lparr>status_taskGraphId = ''G'', status_state = ''blocked''\<rparr>
           ''T'' ''route.G'']\<rparr>"
proof -
  have "Handlers_failed quiet ex_failed ex_world =
      blockTaskGraph (Some ''G'') ''T''
        (Task_commit (ex_task\<lparr>resolution := Some \<lparr>completed = False, success = False,
                                                    resultUrl = None, logsUrl = None\<rparr>\<rparr>) ex_world)"
    using Handlers_failed_eq [of ex_failed ex_world ex_task quiet] by simp
  then show ?thesis
    by (simp add: ex_after_failed_def on_message_def blockTaskGraph_chain_eq status_def)
       (simp add: ex_world_def ex_task_def ex_graph_def Task_commit_def TaskGraph_commit_def)
qed

text \<open>
  Claim C6 says that a resolution, once set, is never changed to a different
  value. On the code this fails: the failed message sets the resolution of
  \<open>T\<close> to \<open>{completed: false, success: false}\<close>, and a later completed
  message with success overwrites it.
\<close>

theorem resolution_overwritten_counterexample:
  "map resolution (Task ex_world) = [None] \<and>
   map resolution (Task ex_after_failed) =
     [Some \<lparr>completed = False, success = False, resultUrl = None, logsUrl = None\<rparr>] \<and>
   map resolution (Task ex_after_failed_then_success) =
     [Some \<lparr>completed = True, success = True, resultUrl = Some ''result'',
            logsUrl = Some ''logs''\<rparr>]"
proof -
  have l: "Task_load (routing_taskGraphId (ex_completed True))
      (payload_status_taskId (ex_completed True)) ex_after_failed =
      Inr (ex_task\<lparr>resolution := Some \<lparr>completed = False, success = False,
                                          resultUrl = None, logsUrl = None\<rparr>\<rparr>)"
    by (simp add: ex_after_failed_eq Task_load_def ex_task_def)
  have "Task ex_after_failed_then_success =
      [ex_task\<lparr>resolution := Some \<lparr>completed = True, success = True,
                                     resultUrl = Some ''result'', logsUrl = Some ''logs''\<rparr>\<rparr>]"
    unfolding ex_after_failed_then_success_def
    by (simp add: on_message_def Handlers_completed_success_eq [OF l]
          checkTaskGraphFinished_frame)
       (simp add: ex_after_failed_eq ex_task_def)
  then show ?thesis
    by (simp add: ex_after_failed_eq) (simp add: ex_world_def ex_task_def)
qed

lemma commit_task_step:
  assumes "Task_load gid tid w = Inr loaded"
    and "taskGraphId t' = taskGraphId loaded" "taskId t' = taskId loaded"
    and "Task w' = Task (Task_commit t' w)"
    and "Task_load g t w = Inr e"
  shows "Task_load g t w' = Inr (if g = gid \<and> t = tid then t' else e) \<and>
         (g = gid \<and> t = tid \<longrightarrow> e = loaded)"
proof (cases "g = gid \<and> t = tid")
  case True
  have "Task_load gid tid (Task_commit t' w) = Inr t'"
    using assms(1,2,3) by (rule Task_load_commit)
  then show ?thesis
    using True assms(1,5) Task_load_cong [OF assms(4), of gid tid] by simp
next
  case False
  have "gid = Some (taskGraphId loaded) \<and> taskId loaded = tid"
    using assms(1) by (rule Task_load_key)
  then have "Task_load g t (Task_commit t' w) = Task_load g t w"
    using False assms(2,3) by (intro Task_load_commit_other) auto
  then show ?thesis
    using False assms(5) Task_load_cong [OF assms(4), of g t] by auto
qed

lemma seen_task_cases:
  "seen_task x e = e \<or> (\<exists>c\<in>set (task_conflicts x). seen_task x e = reload_task e c)"
  by (cases "task_conflicts x" rule: rev_cases) (auto simp: seen_task_def)

lemma seen_task_resolution:
  assumes "resolution e \<noteq> None" "\<forall>c\<in>set (task_conflicts x). resolution c \<noteq> None"
  shows "resolution (seen_task x e) \<noteq> None"
  using seen_task_cases [of x e] assms by (auto simp: reload_task_def)

lemma on_message_task_step:
  assumes "routing_taskGraphId m = g \<and> payload_status_taskId m = t \<longrightarrow>
             (\<forall>c\<in>set (task_conflicts x). resolution c \<noteq> None)"
    and "Task_load g t w = Inr e" "resolution e \<noteq> None"
  shows "\<exists>e'. Task_load g t (final_world x (on_message ce fe x m w)) = Inr e' \<and>
              resolution e' \<noteq> None"
proof (cases rule: on_message_cases [of m ce fe x w])
  case unexpected
  then show ?thesis using assms(2,3) by simp
next
  case (missing e)
  then show ?thesis using assms(2,3) by simp
next
  case (failed loaded)
  show ?thesis
    unfolding failed(4) final_world_blockTaskGraph
    using commit_task_step [OF failed(3) _ _ blockTaskGraph_chain_frame(1) assms(2)] assms(3)
    by auto
next
  case (rerun loaded)
  have f: "Task (snd (rerunTask x tid v)) = Task v" for tid v
    by (simp add: rerunTask_def)
  have "resolution (seen_task x loaded) \<noteq> None"
    if "g = routing_taskGraphId m" "t = payload_status_taskId m"
  proof -
    from that rerun(4) assms(2) have "e = loaded" by simp
    with assms(1,3) that show ?thesis by (intro seen_task_resolution) auto
  qed
  with commit_task_step [OF rerun(4) _ _ f assms(2)] assms(3)
  show ?thesis
    unfolding rerun(5) final_world_awaited by auto
next
  case (exhausted loaded)
  show ?thesis
    unfolding exhausted(5) final_world_blockTaskGraph
    using commit_task_step [OF exhausted(4) _ _ blockTaskGraph_chain_frame(1) assms(2)] assms(3)
    by auto
next
  case (schedule loaded)
  show ?thesis
    unfolding schedule(5) final_world_awaited
    using commit_task_step [OF schedule(4) _ _ scheduleDependentTasks_frame(1) assms(2)] assms(3)
    by auto
next
  case (finish loaded)
  show ?thesis
    unfolding finish(5) final_world_awaited
    using commit_task_step [OF finish(4) _ _ checkTaskGraphFinished_frame(1) assms(2)] assms(3)
    by auto
qed

text \<open>
  Claim C6, amended. Over every run of handled messages, with or without
  concurrent writers, a resolution that is set stays set: no handler unsets
  it. The one thing asked of the surroundings is that the versions which
  concurrent handlers write for this very task, between the load and the
  commit of a message for it, have a resolution as well. The value of the
  resolution can change, since each of the three mutators that write a
  resolution writes its own unconditionally.
\<close>

theorem resolution_never_unset:
  assumes "\<forall>xm\<in>set steps.
             routing_taskGraphId (snd xm) = g \<and> payload_status_taskId (snd xm) = t \<longrightarrow>
             (\<forall>c\<in>set (task_conflicts (fst xm)). resolution c \<noteq> None)"
    and "Task_load g t w = Inr e" and "resolution e \<noteq> None"
  shows "\<exists>e'. Task_load g t (handle_all ce fe steps w) = Inr e' \<and> resolution e' \<noteq> None"
  using assms
proof (induction steps arbitrary: w e)
  case Nil
  then show ?case by simp
next
  case (Cons xm steps)
  from Cons.prems(1)
  have q: "routing_taskGraphId (snd xm) = g \<and> payload_status_taskId (snd xm) = t \<longrightarrow>
           (\<forall>c\<in>set (task_conflicts (fst xm)). resolution c \<noteq> None)"
    by simp
  from on_message_task_step [OF q Cons.prems(2,3), of ce fe]
  obtain e1 where e1: "Task_load g t (final_world (fst xm) (on_message ce fe (fst xm) (snd xm) w))
      = Inr e1" "resolution e1 \<noteq> None"
    by blast
  from Cons.prems(1)
  have "\<forall>xm\<in>set steps.
          routing_taskGraphId (snd xm) = g \<and> payload_status_taskId (snd xm) = t \<longrightarrow>
          (\<forall>c\<in>set (task_conflicts (fst xm)). resolution c \<noteq> None)"
    by simp
  from Cons.IH [OF this e1] show ?case by simp
qed

text \<open>
  Task \<open>T\<close> has failed. A completed message without success is handled
  while a concurrent handler writes a version of \<open>T\<close> with three reruns left
  (the committed run decrements that version), then a completed message with
  success.
\<close>

theorem resolution_never_unset_witness:
  "Task_load (Some ''G'') ''T'' ex_after_failed =
     Inr (ex_task\<lparr>resolution := Some \<lparr>completed = False, success = False,
                                        resultUrl = None, logsUrl = None\<rparr>\<rparr>) \<and>
   resolution (ex_task\<lparr>resolution := Some \<lparr>completed = False, success = False,
                                            resultUrl = None, logsUrl = None\<rparr>\<rparr>) \<noteq> None \<and>
   (\<exists>e'. Task_load (Some ''G'') ''T''
            (handle_all ''task-completed'' ''task-failed''
               [(quiet\<lparr>task_conflicts :=
                    [ex_task\<lparr>rerunsLeft := 3,
                             resolution := Some \<lparr>completed = False, success = False,
                                                   resultUrl = None, logsUrl = None\<rparr>\<rparr>]\<rparr>,
                 ex_completed False),
                (quiet, ex_completed True)] ex_after_failed)
          = Inr e' \<and> resolution e' \<noteq> None)"
proof -
  have h1: "\<forall>xm\<in>set [(quiet\<lparr>task_conflicts :=
                    [ex_task\<lparr>rerunsLeft := 3,
                             resolution := Some \<lparr>completed = False, success = False,
                                                   resultUrl = None, logsUrl = None\<rparr>\<rparr>]\<rparr>,
                 ex_completed False),
                (quiet, ex_completed True)].
      routing_taskGraphId (snd xm) = Some ''G'' \<and> payload_status_taskId (snd xm) = ''T'' \<longrightarrow>
      (\<forall>c\<in>set (task_conflicts (fst xm)). resolution c \<noteq> None)"
    by simp
  have h2: "Task_load (Some ''G'') ''T'' ex_after_failed =
     Inr (ex_task\<lparr>resolution := Some \<lparr>completed = False, success = False,
                                        resultUrl = None, logsUrl = None\<rparr>\<rparr>)"
    by (simp add: ex_after_failed_eq Task_load_def ex_task_def)
  have h3: "resolution (ex_task\<lparr>resolution := Some \<lparr>completed = False, success = False,
                                            resultUrl = None, logsUrl = None\<rparr>\<rparr>) \<noteq> None"
    by simp
  from resolution_never_unset [OF h1 h2 h3] h2 h3 show ?thesis
    by simp
qed

section \<open>Handling a message a second time\<close>

lemma ex_after_first_eq:
  "ex_after_first =
     \<lparr>Task = [ex_task], TaskGraph = [ex_graph], queue_calls = [RerunTask ''T''],
      publisher_calls = []\<rparr>"
proof -
  have l: "Task_load (routing_taskGraphId (ex_completed False))
      (payload_status_taskId (ex_completed False)) ex_rerun_world
      = Inr (ex_task\<lparr>rerunsLeft := 1\<rparr>)"
    by (simp add: ex_rerun_world_def)
  have p: "0 < rerunsLeft (seen_task quiet (ex_task\<lparr>rerunsLeft := 1\<rparr>))"
    by simp
  show ?thesis
    unfolding ex_after_first_def
    by (simp add: Handlers_completed_rerun_eq [OF l _ p] rerunTask_def)
       (simp add: ex_rerun_world_def ex_world_def ex_task_def Task_commit_def)
qed

text \<open>
  Claim C7 says that handling any message a second time changes nothing and
  publishes nothing more. On the code this fails for a completed message
  with \<open>success = false\<close> while a rerun is left: with one rerun left, the
  first handling uses it and asks the queue to rerun the task; the second
  handling of the same message on the state so produced sets the resolution,
  blocks the task-graph and calls the publisher.
\<close>

theorem replay_consumes_rerun_counterexample:
  "Task ex_rerun_world = [ex_task\<lparr>rerunsLeft := 1\<rparr>] \<and>
   ex_after_first =
     \<lparr>Task = [ex_task], TaskGraph = [ex_graph], queue_calls = [RerunTask ''T''],
      publisher_calls = []\<rparr> \<and>
   ex_after_second =
     \<lparr>Task = [ex_task\<lparr>resolution := Some \<lparr>completed = True, success = False,
                                            resultUrl = Some ''result'',
                                            logsUrl = Some ''logs''\<rparr>\<rparr>],
      TaskGraph = [ex_graph\<lparr>state := ''blocked''\<rparr>],
      queue_calls = [RerunTask ''T''],
      publisher_calls =
        [TaskGraphBlocked \<lparr>status_taskGraphId = ''G'', status_state = ''blocked''\<rparr>
           ''T'' ''route.G'']\<rparr>"
proof -
  have l: "Task_load (routing_taskGraphId (ex_completed False))
      (payload_status_taskId (ex_completed False)) ex_after_first = Inr ex_task"
    by (simp add: ex_after_first_eq Task_load_def ex_task_def)
  have lg: "TaskGraph_load (Some ''G'') (Task_commit t ex_after_first) = Inr ex_graph" for t
    by (simp add: ex_after_first_eq TaskGraph_load_def ex_graph_def)
  have n: "\<not> 0 < rerunsLeft (seen_task quiet ex_task)"
    by (simp add: ex_task_def)
  have "ex_after_second =
     \<lparr>Task = [ex_task\<lparr>resolution := Some \<lparr>completed = True, success = False,
                                            resultUrl = Some ''result'',
                                            logsUrl = Some ''logs''\<rparr>\<rparr>],
      TaskGraph = [ex_graph\<lparr>state := ''blocked''\<rparr>],
      queue_calls = [RerunTask ''T''],
      publisher_calls =
        [TaskGraphBlocked \<lparr>status_taskGraphId = ''G'', status_state = ''blocked''\<rparr>
           ''T'' ''route.G'']\<rparr>"
    unfolding ex_after_second_def
    by (simp add: Handlers_completed_exhausted_eq [OF l _ n] blockTaskGraph_chain_eq [OF lg]
          status_def)
       (simp add: ex_after_first_eq ex_task_def ex_graph_def Task_commit_def
          TaskGraph_commit_def)
  then show ?thesis
    by (simp add: ex_after_first_eq) (simp add: ex_rerun_world_def)
qed

lemma on_message_missing:
  assumes "Task_load (routing_taskGraphId m) (payload_status_taskId m) w = Inl e"
  shows "final_world x (on_message ce fe x m w) = w"
  using assms
  by (simp add: on_message_def Handlers_completed_missing Handlers_failed_missing)

lemma task_recommit:
  assumes "Task_load gid tid w = Inr loaded"
    and "taskGraphId t1 = taskGraphId loaded" "taskId t1 = taskId loaded"
    and "Task w1 = Task (Task_commit t1 w)"
  shows "Task_load gid tid w1 = Inr t1 \<and> Task (Task_commit t1 w1) = Task w1"
proof -
  have "Task_load gid tid (Task_commit t1 w) = Inr t1"
    using assms(1,2,3) by (rule Task_load_commit)
  then have l: "Task_load gid tid w1 = Inr t1"
    using Task_load_cong [OF assms(4), of gid tid] by simp
  have "Task (Task_commit t1 w1) = Task w1"
    using map_replace_idem [of "\<lambda>r. taskGraphId r = taskGraphId t1 \<and> taskId r = taskId t1" t1 "Task w"]
    by (simp add: assms(4))
  with l show ?thesis by simp
qed

lemma graph_recommit:
  assumes "TaskGraph_load gid w = Inr loaded" "taskGraphId gc = taskGraphId loaded"
    and "TaskGraph w1 = TaskGraph (TaskGraph_commit gc w)"
  shows "TaskGraph_load gid w1 = Inr gc \<and> TaskGraph (TaskGraph_commit gc w1) = TaskGraph w1"
proof -
  have "TaskGraph_load gid (TaskGraph_commit gc w) = Inr gc"
    using assms(1,2) by (rule TaskGraph_load_commit)
  then have l: "TaskGraph_load gid w1 = Inr gc"
    using TaskGraph_load_cong [OF assms(3), of gid] by simp
  have "TaskGraph (TaskGraph_commit gc w1) = TaskGraph w1"
    using map_replace_idem [of "\<lambda>r. taskGraphId r = taskGraphId gc" gc "TaskGraph w"]
    by (simp add: assms(3))
  with l show ?thesis by simp
qed

lemma block_twice:
  assumes "graph_conflicts x2 = []"
    and "TaskGraph wB = TaskGraph (snd (blockTaskGraph_chain x1 gid t wA))"
  shows "TaskGraph (snd (blockTaskGraph_chain x2 gid t' wB)) = TaskGraph wB \<and>
         publisher_calls (snd (blockTaskGraph_chain x2 gid t' wB)) = publisher_calls wB"
proof (cases "TaskGraph_load gid wA")
  case (Inl e)
  then have "TaskGraph wB = TaskGraph wA"
    using assms(2) by (simp add: blockTaskGraph_chain_missing)
  then have "TaskGraph_load gid wB = Inl e"
    using Inl TaskGraph_load_cong [of wB wA gid] by simp
  then show ?thesis by (simp add: blockTaskGraph_chain_missing)
next
  case (Inr loaded)
  define gc where "gc = snd (block_mutator False (seen_graph x1 loaded))"
  have key: "taskGraphId gc = taskGraphId loaded" by (simp add: gc_def)
  have "TaskGraph wB = TaskGraph (TaskGraph_commit gc wA)"
    using assms(2) blockTaskGraph_chain_graphs [OF Inr, of x1 t] by (simp add: gc_def)
  from graph_recommit [OF Inr key this]
  have l: "TaskGraph_load gid wB = Inr gc"
    and c: "TaskGraph (TaskGraph_commit gc wB) = TaskGraph wB"
    by simp_all
  have "state gc \<noteq> ''running''"
    by (simp add: gc_def block_mutator_eq)
  then show ?thesis
    using c assms(1) by (simp add: blockTaskGraph_chain_eq [OF l])
qed

lemma finish_twice:
  assumes "graph_conflicts x2 = []"
    and "TaskGraph wB = TaskGraph (snd (checkTaskGraphFinished x1 gid t wA))"
  shows "TaskGraph (snd (checkTaskGraphFinished x2 gid t wB)) = TaskGraph wB \<and>
         publisher_calls (snd (checkTaskGraphFinished x2 gid t wB)) = publisher_calls wB"
proof (cases "TaskGraph_load gid wA")
  case (Inl e)
  then have "TaskGraph wB = TaskGraph wA"
    using assms(2) by (simp add: checkTaskGraphFinished_missing)
  then have "TaskGraph_load gid wB = Inl e"
    using Inl TaskGraph_load_cong [of wB wA gid] by simp
  then show ?thesis by (simp add: checkTaskGraphFinished_missing)
next
  case (Inr loaded)
  define gc where "gc = snd (finish_mutator t False (seen_graph x1 loaded))"
  have key: "taskGraphId gc = taskGraphId loaded" by (simp add: gc_def)
  have "TaskGraph wB = TaskGraph (TaskGraph_commit gc wA)"
    using assms(2) checkTaskGraphFinished_graphs [OF Inr, of x1 t] by (simp add: gc_def)
  from graph_recommit [OF Inr key this]
  have l: "TaskGraph_load gid wB = Inr gc"
    and c: "TaskGraph (TaskGraph_commit gc wB) = TaskGraph wB"
    by simp_all
  have "t \<notin> set (requiresLeft gc)"
    by (simp add: gc_def finish_mutator_eq)
  then show ?thesis
    using c assms(1) by (simp add: checkTaskGraphFinished_eq [OF l])
qed


text \<open>
  Claim C7, amended. Take a failed message, a completed message with
  \<open>success = true\<close>, or a completed message with \<open>success = false\<close> for a
  task that has no rerun left. Handling it a second time, without a
  concurrent writer, on the state produced by the first handling leaves the
  task table and the task-graph table as they are and makes no further call
  to the publisher. (A completed message with \<open>success = false\<close> for a task
  with a rerun left uses one rerun at each handling.)
\<close>

theorem replay_changes_nothing:
  assumes "task_conflicts x2 = []" "graph_conflicts x2 = []"
    and "exchange m = ce \<and> \<not> payload_success m \<longrightarrow>
           (\<forall>loaded. Task_load (routing_taskGraphId m) (payload_status_taskId m) w = Inr loaded
              \<longrightarrow> rerunsLeft (seen_task x1 loaded) \<le> 0)"
  shows "let w1 = final_world x1 (on_message ce fe x1 m w);
             w2 = final_world x2 (on_message ce fe x2 m w1)
         in Task w2 = Task w1 \<and> TaskGraph w2 = TaskGraph w1 \<and>
            publisher_calls w2 = publisher_calls w1"
proof (cases rule: on_message_cases [of m ce fe x1 w])
  case unexpected
  then show ?thesis by (simp add: on_message_def)
next
  case (missing e)
  then show ?thesis by (simp add: on_message_missing)
next
  case (failed loaded)
  define t1 where "t1 = (seen_task x1 loaded)
      \<lparr>resolution := Some \<lparr>completed = False, success = False,
                             resultUrl = None, logsUrl = None\<rparr>\<rparr>"
  define w1 where "w1 = snd (blockTaskGraph_chain x1 (routing_taskGraphId m)
      (payload_status_taskId m) (Task_commit t1 w))"
  have first: "final_world x1 (on_message ce fe x1 m w) = w1"
    by (simp add: failed(4) w1_def t1_def)
  have "Task w1 = Task (Task_commit t1 w)"
    by (simp add: w1_def blockTaskGraph_chain_frame)
  from task_recommit [OF failed(3) _ _ this]
  have l: "Task_load (routing_taskGraphId m) (payload_status_taskId m) w1 = Inr t1"
    and c: "Task (Task_commit t1 w1) = Task w1"
    by (simp_all add: t1_def)
  have same: "(seen_task x2 t1)\<lparr>resolution := Some \<lparr>completed = False, success = False,
                             resultUrl = None, logsUrl = None\<rparr>\<rparr> = t1"
    using assms(1) by (simp add: t1_def)
  have second: "final_world x2 (on_message ce fe x2 m w1) =
      snd (blockTaskGraph_chain x2 (routing_taskGraphId m) (payload_status_taskId m)
             (Task_commit t1 w1))"
    using failed(1,2) by (simp add: on_message_def Handlers_failed_eq [OF l] same)
  have "TaskGraph (Task_commit t1 w1) =
      TaskGraph (snd (blockTaskGraph_chain x1 (routing_taskGraphId m)
        (payload_status_taskId m) (Task_commit t1 w)))"
    by (simp add: w1_def)
  from block_twice [OF assms(2) this, of "payload_status_taskId m"] c
  show ?thesis
    unfolding Let_def first second by (simp add: blockTaskGraph_chain_frame)
next
  case (rerun loaded)
  with assms(3) show ?thesis by auto
next
  case (exhausted loaded)
  define t1 where "t1 = (seen_task x1 loaded)
      \<lparr>resolution := Some \<lparr>completed = True, success = False,
                             resultUrl = payload_resultUrl m, logsUrl = payload_logsUrl m\<rparr>\<rparr>"
  define w1 where "w1 = snd (blockTaskGraph_chain x1 (routing_taskGraphId m)
      (payload_status_taskId m) (Task_commit t1 w))"
  have first: "final_world x1 (on_message ce fe x1 m w) = w1"
    by (simp add: exhausted(5) w1_def t1_def)
  have "Task w1 = Task (Task_commit t1 w)"
    by (simp add: w1_def blockTaskGraph_chain_frame)
  from task_recommit [OF exhausted(4) _ _ this]
  have l: "Task_load (routing_taskGraphId m) (payload_status_taskId m) w1 = Inr t1"
    and c: "Task (Task_commit t1 w1) = Task w1"
    by (simp_all add: t1_def)
  have same: "(seen_task x2 t1)\<lparr>resolution := Some \<lparr>completed = True, success = False,
                             resultUrl = payload_resultUrl m, logsUrl = payload_logsUrl m\<rparr>\<rparr> = t1"
    using assms(1) by (simp add: t1_def)
  have n: "\<not> 0 < rerunsLeft (seen_task x2 t1)"
    using assms(1) exhausted(3) by (simp add: t1_def)
  have second: "final_world x2 (on_message ce fe x2 m w1) =
      snd (blockTaskGraph_chain x2 (routing_taskGraphId m) (payload_status_taskId m)
             (Task_commit t1 w1))"
    using exhausted(1)
    by (simp add: on_message_def Handlers_completed_exhausted_eq [OF l exhausted(2) n] same)
  have "TaskGraph (Task_commit t1 w1) =
      TaskGraph (snd (blockTaskGraph_chain x1 (routing_taskGraphId m)
        (payload_status_taskId m) (Task_commit t1 w)))"
    by (simp add: w1_def)
  from block_twice [OF assms(2) this, of "payload_status_taskId m"] c
  show ?thesis
    unfolding Let_def first second by (simp add: blockTaskGraph_chain_frame)
next
  case (schedule loaded)
  define t1 where "t1 = (seen_task x1 loaded)
      \<lparr>resolution := Some \<lparr>completed = True, success = True,
                             resultUrl = payload_resultUrl m, logsUrl = payload_logsUrl m\<rparr>\<rparr>"
  define w1 where "w1 = snd (scheduleDependentTasks x1 t1 (Task_commit t1 w))"
  have first: "final_world x1 (on_message ce fe x1 m w) = w1"
    by (simp add: schedule(5) w1_def t1_def)
  have "Task w1 = Task (Task_commit t1 w)"
    by (simp add: w1_def scheduleDependentTasks_frame)
  from task_recommit [OF schedule(4) _ _ this]
  have l: "Task_load (routing_taskGraphId m) (payload_status_taskId m) w1 = Inr t1"
    and c: "Task (Task_commit t1 w1) = Task w1"
    by (simp_all add: t1_def)
  have same: "(seen_task x2 t1)\<lparr>resolution := Some \<lparr>completed = True, success = True,
                             resultUrl = payload_resultUrl m, logsUrl = payload_logsUrl m\<rparr>\<rparr> = t1"
    using assms(1) by (simp add: t1_def)
  have d: "dependents (seen_task x2 t1) \<noteq> []"
    using assms(1) schedule(3) by (simp add: t1_def)
  have second: "final_world x2 (on_message ce fe x2 m w1) =
      snd (scheduleDependentTasks x2 t1 (Task_commit t1 w1))"
    using schedule(1) d
    by (simp add: on_message_def Handlers_completed_success_eq [OF l schedule(2)] same)
  show ?thesis
    unfolding Let_def first second using c by (simp add: scheduleDependentTasks_frame)
next
  case (finish loaded)
  define t1 where "t1 = (seen_task x1 loaded)
      \<lparr>resolution := Some \<lparr>completed = True, success = True,
                             resultUrl = payload_resultUrl m, logsUrl = payload_logsUrl m\<rparr>\<rparr>"
  define w1 where "w1 = snd (checkTaskGraphFinished x1 (routing_taskGraphId m)
      (payload_status_taskId m) (Task_commit t1 w))"
  have first: "final_world x1 (on_message ce fe x1 m w) = w1"
    by (simp add: finish(5) w1_def t1_def)
  have "Task w1 = Task (Task_commit t1 w)"
    by (simp add: w1_def checkTaskGraphFinished_frame)
  from task_recommit [OF finish(4) _ _ this]
  have l: "Task_load (routing_taskGraphId m) (payload_status_taskId m) w1 = Inr t1"
    and c: "Task (Task_commit t1 w1) = Task w1"
    by (simp_all add: t1_def)
  have same: "(seen_task x2 t1)\<lparr>resolution := Some \<lparr>completed = True, success = True,
                             resultUrl = payload_resultUrl m, logsUrl = payload_logsUrl m\<rparr>\<rparr> = t1"
    using assms(1) by (simp add: t1_def)
  have d: "dependents (seen_task x2 t1) = []"
    using assms(1) finish(3) by (simp add: t1_def)
  have second: "final_world x2 (on_message ce fe x2 m w1) =
      snd (checkTaskGraphFinished x2 (routing_taskGraphId m) (payload_status_taskId m)
             (Task_commit t1 w1))"
    using finish(1) d
    by (simp add: on_message_def Handlers_completed_success_eq [OF l finish(2)] same)
  have "TaskGraph (Task_commit t1 w1) =
      TaskGraph (snd (checkTaskGraphFinished x1 (routing_taskGraphId m)
        (payload_status_taskId m) (Task_commit t1 w)))"
    by (simp add: w1_def)
  from finish_twice [OF assms(2) this] c
  show ?thesis
    unfolding Let_def first second by (simp add: checkTaskGraphFinished_frame)
qed


theorem replay_changes_nothing_witness:
  "task_conflicts quiet = [] \<and> graph_conflicts quiet = [] \<and>
   Task_load (routing_taskGraphId (ex_completed False)) (payload_status_taskId (ex_completed False))
     ex_world = Inr ex_task \<and>
   rerunsLeft (seen_task quiet ex_task) \<le> 0 \<and>
   Task (final_world quiet
           (on_message ''task-completed'' ''task-failed'' quiet (ex_completed False)
              ex_after_exhausted)) = Task ex_after_exhausted \<and>
   TaskGraph (final_world quiet
           (on_message ''task-completed'' ''task-failed'' quiet (ex_completed False)
              ex_after_exhausted)) = TaskGraph ex_after_exhausted \<and>
   publisher_calls (final_world quiet
           (on_message ''task-completed'' ''task-failed'' quiet (ex_completed False)
              ex_after_exhausted)) = publisher_calls ex_after_exhausted"
proof -
  have h1: "task_conflicts quiet = []" and h2: "graph_conflicts quiet = []"
    by simp_all
  have l: "Task_load (routing_taskGraphId (ex_completed False))
      (payload_status_taskId (ex_completed False)) ex_world = Inr ex_task"
    by simp
  have k: "rerunsLeft (seen_task quiet ex_task) \<le> 0"
    by (simp add: ex_task_def)
  have h3: "exchange (ex_completed False) = ''task-completed'' \<and>
      \<not> payload_success (ex_completed False) \<longrightarrow>
      (\<forall>loaded. Task_load (routing_taskGraphId (ex_completed False))
                  (payload_status_taskId (ex_completed False)) ex_world = Inr loaded
         \<longrightarrow> rerunsLeft (seen_task quiet loaded) \<le> 0)"
    using l k by simp
  have e: "final_world quiet
      (on_message ''task-completed'' ''task-failed'' quiet (ex_completed False) ex_world)
      = ex_after_exhausted"
    by (simp add: ex_after_exhausted_def)
  from replay_changes_nothing [OF h1 h2 h3, of "''task-failed''"] h1 h2 l k
  show ?thesis
    unfolding Let_def e by simp
qed

end
